theory Spec2Isabelle
  imports Complex_Main
begin

section \<open>Data model\<close>

text \<open>
  The service (\<^verbatim>\<open>src/main.py\<close>) keeps its data in pandas frames. A frame is modelled
  column-major, as pandas stores it: an ordered list of named columns, each a list of
  cells. A calendar date is the number of days since 1970-01-01; the AQI values are
  floating-point numbers in the source and are modelled as exact reals, with \<open>NaN\<close> the
  missing-value marker of a numeric column. The historical series that reaches the
  forecast has a date and a value in every row (the cleaning step drops rows without a
  value), so a series is a list of (date, value) rows. A division name, as it comes
  with a request and as it stands in the sheet's \<^verbatim>\<open>City\<close> column, is a Python
  string: the list of its Unicode code points (\<open>pystr\<close>); \<open>codes\<close> gives the code
  points of a literal. Column names are literals of the source and stay \<open>string\<close>.
\<close>

type_synonym day = int

datatype cell = Stamp day | Num real | NaN

type_synonym frame = "(string \<times> cell list) list"

type_synonym series = "(day \<times> real) list"

type_synonym pystr = "nat list"

type_synonym sheet = "(day \<times> pystr \<times> real) list"

type_synonym regressor = "frame \<Rightarrow> real"

datatype error = HTTPException nat | KeyError string | RuntimeError

record forecast_point =
  date :: day
  predicted_aqi :: real

record response =
  division :: pystr
  forecast_days :: nat
  predictions :: "forecast_point list"

record pkl =
  model :: regressor
  features :: "string list"

record 'd globals =
  MODELS :: "(pystr \<times> regressor) list"
  FEATURES :: "string list option"
  CACHE_SECS :: int
  DATA_df :: "'d option"
  DATA_ts :: real

definition codes :: "string \<Rightarrow> pystr" where
  "codes s = map of_char s"

definition DIVS :: "pystr list" where
  "DIVS = map codes [''Dhaka'', ''Chattogram'', ''Sylhet'', ''Khulna'', ''Rajshahi'',
                     ''Barishal'', ''Mymensingh'', ''Rangpur'']"

section \<open>Calendar fields of a date\<close>

text \<open>
  \<^verbatim>\<open>dt.dayofweek\<close> (Monday is 0), \<^verbatim>\<open>dt.month\<close> and \<^verbatim>\<open>dt.dayofyear\<close> of the proleptic
  Gregorian calendar, computed from the day number.
\<close>

definition dayofweek :: "day \<Rightarrow> nat" where
  "dayofweek d = nat ((d + 3) mod 7)"

definition civil :: "day \<Rightarrow> int \<times> nat \<times> nat" where
  "civil d =
     (let z = d + 719468;
          era = z div 146097;
          doe = z - era * 146097;
          yoe = (doe - doe div 1460 + doe div 36524 - doe div 146096) div 365;
          doy = doe - (365 * yoe + yoe div 4 - yoe div 100);
          mp = (5 * doy + 2) div 153;
          m = (if mp < 10 then mp + 3 else mp - 9);
          y = yoe + era * 400 + (if m \<le> 2 then 1 else 0);
          leap = (y mod 4 = 0 \<and> (y mod 100 \<noteq> 0 \<or> y mod 400 = 0));
          yday = (if m \<le> 2 then doy - 305 else doy + 60 + (if leap then 1 else 0))
      in (y, nat m, nat yday))"

definition month :: "day \<Rightarrow> nat" where
  "month d = fst (snd (civil d))"

definition dayofyear :: "day \<Rightarrow> nat" where
  "dayofyear d = snd (snd (civil d))"

section \<open>Column operations\<close>

text \<open>
  \<^verbatim>\<open>Series.shift(L)\<close> moves a column down by \<open>L\<close> rows and fills the top with the
  missing-value marker. \<^verbatim>\<open>rolling(w).mean()\<close> gives, at row \<open>i\<close>, the mean of the
  \<open>w\<close> rows ending at \<open>i\<close>; its default minimum number of observations is the window
  size, so the result is missing unless the window holds \<open>w\<close> values.
  \<^verbatim>\<open>tail(7)\<close> keeps the last 7 rows, or all of them when there are fewer.
\<close>

definition shift :: "nat \<Rightarrow> cell list \<Rightarrow> cell list" where
  "shift L xs = replicate (min L (length xs)) NaN @ take (length xs - L) xs"

fun nums :: "cell list \<Rightarrow> real list" where
  "nums [] = []"
| "nums (Num r # cs) = r # nums cs"
| "nums (c # cs) = nums cs"

definition mean :: "real list \<Rightarrow> real" where
  "mean xs = sum_list xs / real (length xs)"

definition rolling_mean :: "nat \<Rightarrow> cell list \<Rightarrow> cell list" where
  "rolling_mean w xs =
     map (\<lambda>i. let obs = nums (drop (i + 1 - w) (take (i + 1) xs))
              in if w \<le> length obs then Num (mean obs) else NaN)
         [0..<length xs]"

definition tail :: "nat \<Rightarrow> 'a list \<Rightarrow> 'a list" where
  "tail k xs = drop (length xs - k) xs"

definition isna_any :: "frame \<Rightarrow> bool" where
  "isna_any x = list_ex (\<lambda>(k, col). list_ex (\<lambda>c. c = NaN) col) x"

text \<open>\<^verbatim>\<open>frame.iloc[-1:]\<close>: the frame of the last row (no row of an empty frame).\<close>

definition iloc_last :: "frame \<Rightarrow> frame" where
  "iloc_last fr = map (\<lambda>(k, col). (k, tail 1 col)) fr"

text \<open>
  \<^verbatim>\<open>frame[names]\<close>: the named columns, in the order of the names; a name that is not a
  column raises \<^verbatim>\<open>KeyError\<close>.
\<close>

fun getitem :: "frame \<Rightarrow> string list \<Rightarrow> error + frame" where
  "getitem fr [] = Inr []"
| "getitem fr (f # fs) =
     (case map_of fr f of
        None \<Rightarrow> Inl (KeyError f)
      | Some col \<Rightarrow>
          (case getitem fr fs of
             Inl e \<Rightarrow> Inl e
           | Inr x \<Rightarrow> Inr ((f, col) # x)))"

section \<open>Feature builder\<close>

text \<open>The decimal numeral of the f-string \<^verbatim>\<open>f'lag_{L}'\<close>.\<close>

fun str_nat :: "nat \<Rightarrow> string" where
  "str_nat n =
     (if n < 10 then [''0123456789'' ! n]
      else str_nat (n div 10) @ [''0123456789'' ! (n mod 10)])"

declare str_nat.simps [simp del]

definition lag_name :: "nat \<Rightarrow> string" where
  "lag_name L = ''lag_'' @ str_nat L"

text \<open>
  \<^verbatim>\<open>work.copy().sort_values('Date')\<close>. pandas sorts with an unstable algorithm; rows
  with equal dates are kept here in their order. Nothing below depends on that order
  other than through series whose dates are strictly increasing.
\<close>

definition sort_values_Date :: "(day \<times> 'a) list \<Rightarrow> (day \<times> 'a) list" where
  "sort_values_Date work = sort_key fst work"

text \<open>
  \<^verbatim>\<open>build_feats\<close> of \<^verbatim>\<open>src/main.py\<close> (the same as \<^verbatim>\<open>add_features\<close> of
  \<^verbatim>\<open>src/train_baseline.py\<close> with \<^verbatim>\<open>max_lag=14\<close>). Its argument has the columns
  \<^verbatim>\<open>Date\<close> and \<^verbatim>\<open>AQI\<close>; each assignment names a new column, which pandas appends
  on the right.
\<close>

definition build_feats :: "series \<Rightarrow> frame" where
  "build_feats work0 =
     (let work = sort_values_Date work0;
          Date = map fst work;
          AQI = map Num (map snd work)
      in [(''Date'', map Stamp Date), (''AQI'', AQI)]
         @ map (\<lambda>L. (lag_name L, shift L AQI)) [1..<15]
         @ [(''roll7'', rolling_mean 7 (shift 1 AQI)),
            (''roll14'', rolling_mean 14 (shift 1 AQI)),
            (''dow'', map (\<lambda>d. Num (real (dayofweek d))) Date),
            (''mon'', map (\<lambda>d. Num (real (month d))) Date),
            (''doy'', map (\<lambda>d. Num (real (dayofyear d))) Date)])"

text \<open>
  The schema that \<^verbatim>\<open>src/train_baseline.py\<close> stores with every model:
  the \<^verbatim>\<open>lag_\<close> columns in column order, then the rolling and calendar columns.
\<close>

definition feature_cols :: "string list" where
  "feature_cols = map lag_name [1..<15] @ [''roll7'', ''roll14'', ''dow'', ''mon'', ''doy'']"

section \<open>Forecast\<close>

text \<open>
  One pass of the body of the loop \<^verbatim>\<open>for step in range(1, 8)\<close> of \<^verbatim>\<open>predict\<close>,
  on the loop's state: the working series \<^verbatim>\<open>work\<close> and the list \<^verbatim>\<open>out\<close>.
\<close>

definition forecast_step ::
  "regressor \<Rightarrow> string list option \<Rightarrow> day \<Rightarrow> series \<times> forecast_point list \<Rightarrow> nat
   \<Rightarrow> error + series \<times> forecast_point list" where
  "forecast_step mdl FEATS last_date st step =
     (case st of (work, out) \<Rightarrow>
        let target_date = last_date + int step;
            tmp = build_feats work
        in case (case FEATS of None \<Rightarrow> Inl (KeyError ''None'')
                 | Some fs \<Rightarrow> getitem (iloc_last tmp) fs) of
             Inl e \<Rightarrow> Inl e
           | Inr x \<Rightarrow>
               let pred = (if isna_any x then mean (tail 7 (map snd work)) else mdl x)
               in Inr (work @ [(target_date, pred)],
                       out @ [\<lparr>date = target_date, predicted_aqi = pred\<rparr>]))"

fun forecast_loop ::
  "regressor \<Rightarrow> string list option \<Rightarrow> day \<Rightarrow> nat list \<Rightarrow> series \<times> forecast_point list
   \<Rightarrow> error + series \<times> forecast_point list" where
  "forecast_loop mdl FEATS last_date [] st = Inr st"
| "forecast_loop mdl FEATS last_date (step # steps) st =
     (case forecast_step mdl FEATS last_date st step of
        Inl e \<Rightarrow> Inl e
      | Inr st' \<Rightarrow> forecast_loop mdl FEATS last_date steps st')"

text \<open>
  \<^verbatim>\<open>get_data_cached\<close>: the cached sheet, loaded again when there is none or when it
  is older than \<^verbatim>\<open>CACHE_SECS\<close>. \<open>now\<close> is the clock and \<open>loaded\<close> is what
  \<^verbatim>\<open>load_sheet_clean()\<close> returns or raises at this moment.
\<close>

definition get_data_cached ::
  "sheet globals \<Rightarrow> real \<Rightarrow> error + sheet \<Rightarrow> (error + sheet) \<times> sheet globals" where
  "get_data_cached g now loaded =
     (case DATA_df g of
        Some df \<Rightarrow>
          if now - DATA_ts g > real_of_int (CACHE_SECS g) then
            (case loaded of
               Inl e \<Rightarrow> (Inl e, g)
             | Inr df' \<Rightarrow> (Inr df', g\<lparr>DATA_df := Some df', DATA_ts := now\<rparr>))
          else (Inr df, g)
      | None \<Rightarrow>
          (case loaded of
             Inl e \<Rightarrow> (Inl e, g)
           | Inr df' \<Rightarrow> (Inr df', g\<lparr>DATA_df := Some df', DATA_ts := now\<rparr>)))"

text \<open>
  \<^verbatim>\<open>str.strip()\<close> removes the leading and the trailing whitespace of a Python
  string: the 29 code points for which \<^verbatim>\<open>str.isspace\<close> holds (U+0009 to U+000D,
  U+001C to U+0020, U+0085, U+00A0, U+1680, U+2000 to U+200A, U+2028, U+2029, U+202F,
  U+205F, U+3000).
\<close>

definition is_space :: "nat \<Rightarrow> bool" where
  "is_space c =
     (c \<in> set [9, 10, 11, 12, 13, 28, 29, 30, 31, 32, 133, 160, 5760,
                8192, 8193, 8194, 8195, 8196, 8197, 8198, 8199, 8200, 8201, 8202,
                8232, 8233, 8239, 8287, 12288])"

definition strip :: "pystr \<Rightarrow> pystr" where
  "strip s = rev (dropWhile is_space (rev (dropWhile is_space s)))"

text \<open>
  The part of \<^verbatim>\<open>predict\<close> after the model and the data are at hand: the historical
  series of the division, the check that it is not empty, and the rollout.
\<close>

definition hist_of :: "sheet \<Rightarrow> pystr \<Rightarrow> series" where
  "hist_of df_all dv =
     map (\<lambda>(d, c, a). (d, a)) (sort_values_Date (filter (\<lambda>(d, c, a). c = dv) df_all))"

definition forecast ::
  "regressor \<Rightarrow> string list option \<Rightarrow> pystr \<Rightarrow> series \<Rightarrow> error + response" where
  "forecast mdl FEATS dv hist =
     (if hist = [] then Inl (HTTPException 404)
      else
        let last_date = Max (set (map fst hist)) in
        case forecast_loop mdl FEATS last_date [1..<8] (hist, []) of
          Inl e \<Rightarrow> Inl e
        | Inr (work, out) \<Rightarrow>
            Inr \<lparr>division = dv, forecast_days = 7, predictions = out\<rparr>)"

definition predict ::
  "sheet globals \<Rightarrow> real \<Rightarrow> error + sheet \<Rightarrow> pystr
   \<Rightarrow> (error + response) \<times> sheet globals" where
  "predict g now loaded division0 =
     (let dv = strip division0 in
      if dv \<notin> set DIVS then (Inl (HTTPException 400), g)
      else
        case map_of (MODELS g) dv of
          None \<Rightarrow> (Inl (HTTPException 500), g)
        | Some mdl \<Rightarrow>
            (case get_data_cached g now loaded of
               (Inl e, g') \<Rightarrow> (Inl e, g')
             | (Inr df_all, g') \<Rightarrow> (forecast mdl (FEATURES g') dv (hist_of df_all dv), g')))"

section \<open>Start of the process\<close>

text \<open>
  The loop over \<^verbatim>\<open>DIVS\<close> at the top of \<^verbatim>\<open>src/main.py\<close>: \<open>files d\<close> is the content
  of \<^verbatim>\<open>models/d.pkl\<close> when the file exists. A dictionary assignment replaces the
  value of a key that is present and adds the key at the end otherwise.
\<close>

definition setitem :: "'k \<Rightarrow> 'v \<Rightarrow> ('k \<times> 'v) list \<Rightarrow> ('k \<times> 'v) list" where
  "setitem k v al =
     (if k \<in> fst ` set al then map (\<lambda>(k', v'). if k' = k then (k', v) else (k', v')) al
      else al @ [(k, v)])"

definition load_one ::
  "(pystr \<rightharpoonup> pkl) \<Rightarrow> pystr \<Rightarrow> (pystr \<times> regressor) list \<times> string list option
   \<Rightarrow> (pystr \<times> regressor) list \<times> string list option" where
  "load_one files d st =
     (case files d of
        None \<Rightarrow> st
      | Some obj \<Rightarrow> (setitem d (model obj) (fst st), Some (features obj)))"

definition load_models :: "(pystr \<rightharpoonup> pkl) \<Rightarrow> (pystr \<times> regressor) list \<times> string list option" where
  "load_models files = fold (load_one files) DIVS ([], None)"

definition startup :: "(pystr \<rightharpoonup> pkl) \<Rightarrow> int \<Rightarrow> error + sheet globals" where
  "startup files cache_secs =
     (case load_models files of
        (ms, fs) \<Rightarrow>
          if List.null ms then Inl RuntimeError
          else Inr \<lparr>MODELS = ms, FEATURES = fs, CACHE_SECS = cache_secs,
                    DATA_df = None, DATA_ts = 0\<rparr>)"

section \<open>Requests in sequence\<close>

text \<open>
  The process serves one request after the other; the globals left by a request are
  those the next one finds. A request is the clock, what \<^verbatim>\<open>load_sheet_clean()\<close>
  returns or raises at that moment, and the division parameter.
\<close>

fun serve :: "sheet globals \<Rightarrow> (real \<times> (error + sheet) \<times> pystr) list \<Rightarrow> sheet globals" where
  "serve g [] = g"
| "serve g ((now, loaded, d) # reqs) = serve (snd (predict g now loaded d)) reqs"

section \<open>The frames as objects of a store\<close>

text \<open>
  \<^verbatim>\<open>predict\<close> once more, with every frame an object at an address of a store, so that
  two names of one frame are one address. An operation of pandas that returns a new
  frame allocates: the boolean selection, \<^verbatim>\<open>sort_values\<close>, the column selection,
  \<^verbatim>\<open>copy\<close>, \<^verbatim>\<open>iloc\<close>, the constructor and \<^verbatim>\<open>concat\<close>. A column assignment
  \<^verbatim>\<open>work[name] = col\<close> writes into the object at the address \<open>work\<close>. The cache
  \<^verbatim>\<open>_DATA["df"]\<close> holds an address. An object is the sheet, a frame of the columns
  \<^verbatim>\<open>Date\<close> and \<^verbatim>\<open>AQI\<close> with the columns assigned to it, or a frame of selected
  columns.
\<close>

datatype obj = Sheet sheet | Frame series frame | Cols frame

type_synonym store = "obj list"

definition alloc :: "obj \<Rightarrow> store \<Rightarrow> store \<times> nat" where
  "alloc ob h = (h @ [ob], length h)"

fun sheet_rows :: "obj \<Rightarrow> sheet" where
  "sheet_rows (Sheet df) = df"
| "sheet_rows ob = []"

fun rows :: "obj \<Rightarrow> series" where
  "rows (Frame s ex) = s"
| "rows ob = []"

fun view :: "obj \<Rightarrow> frame" where
  "view (Frame s ex) = [(''Date'', map Stamp (map fst s)), (''AQI'', map Num (map snd s))] @ ex"
| "view (Cols fr) = fr"
| "view (Sheet df) = []"

fun setcol :: "string \<Rightarrow> cell list \<Rightarrow> obj \<Rightarrow> obj" where
  "setcol name col (Frame s ex) = Frame s (setitem name col ex)"
| "setcol name col ob = ob"

definition assign :: "nat \<Rightarrow> string \<Rightarrow> cell list \<Rightarrow> store \<Rightarrow> store" where
  "assign a name col h = h[a := setcol name col (h ! a)]"

definition AQI_of :: "obj \<Rightarrow> cell list" where
  "AQI_of ob = map Num (map snd (rows ob))"

definition Date_of :: "obj \<Rightarrow> day list" where
  "Date_of ob = map fst (rows ob)"

definition build_feats_st :: "nat \<Rightarrow> store \<Rightarrow> store \<times> nat" where
  "build_feats_st work0 h =
     (let (h1, c) = alloc (h ! work0) h;
          (h2, work) = alloc (Frame (sort_values_Date (rows (h1 ! c))) []) h1;
          h3 = fold (\<lambda>L h'. assign work (lag_name L) (shift L (AQI_of (h' ! work))) h')
                 [1..<15] h2;
          h4 = assign work ''roll7'' (rolling_mean 7 (shift 1 (AQI_of (h3 ! work)))) h3;
          h5 = assign work ''roll14'' (rolling_mean 14 (shift 1 (AQI_of (h4 ! work)))) h4;
          h6 = assign work ''dow'' (map (\<lambda>d. Num (real (dayofweek d))) (Date_of (h5 ! work))) h5;
          h7 = assign work ''mon'' (map (\<lambda>d. Num (real (month d))) (Date_of (h6 ! work))) h6;
          h8 = assign work ''doy'' (map (\<lambda>d. Num (real (dayofyear d))) (Date_of (h7 ! work))) h7
      in (h8, work))"

definition forecast_step_st ::
  "regressor \<Rightarrow> string list option \<Rightarrow> day \<Rightarrow> nat \<times> forecast_point list \<Rightarrow> nat \<Rightarrow> store
   \<Rightarrow> (error + nat \<times> forecast_point list) \<times> store" where
  "forecast_step_st mdl FEATS last_date st step h =
     (case st of (work, out) \<Rightarrow>
        let target_date = last_date + int step;
            (h1, tmp) = build_feats_st work h;
            (h2, r) = alloc (Cols (iloc_last (view (h1 ! tmp)))) h1
        in case (case FEATS of None \<Rightarrow> Inl (KeyError ''None'')
                 | Some fs \<Rightarrow> getitem (view (h2 ! r)) fs) of
             Inl e \<Rightarrow> (Inl e, h2)
           | Inr xf \<Rightarrow>
               let (h3, x) = alloc (Cols xf) h2;
                   pred = (if isna_any (view (h3 ! x))
                           then mean (tail 7 (map snd (rows (h3 ! work))))
                           else mdl (view (h3 ! x)));
                   (h4, n) = alloc (Frame [(target_date, pred)] []) h3;
                   (h5, work') = alloc (Frame (rows (h4 ! work) @ rows (h4 ! n)) []) h4
               in (Inr (work', out @ [\<lparr>date = target_date, predicted_aqi = pred\<rparr>]), h5))"

fun forecast_loop_st ::
  "regressor \<Rightarrow> string list option \<Rightarrow> day \<Rightarrow> nat list \<Rightarrow> nat \<times> forecast_point list \<Rightarrow> store
   \<Rightarrow> (error + nat \<times> forecast_point list) \<times> store" where
  "forecast_loop_st mdl FEATS last_date [] st h = (Inr st, h)"
| "forecast_loop_st mdl FEATS last_date (step # steps) st h =
     (case forecast_step_st mdl FEATS last_date st step h of
        (Inl e, h') \<Rightarrow> (Inl e, h')
      | (Inr st', h') \<Rightarrow> forecast_loop_st mdl FEATS last_date steps st' h')"

definition forecast_st ::
  "regressor \<Rightarrow> string list option \<Rightarrow> pystr \<Rightarrow> nat \<Rightarrow> store \<Rightarrow> (error + response) \<times> store" where
  "forecast_st mdl FEATS dv hist h =
     (if rows (h ! hist) = [] then (Inl (HTTPException 404), h)
      else
        let last_date = Max (set (map fst (rows (h ! hist))));
            (h1, work) = alloc (h ! hist) h
        in case forecast_loop_st mdl FEATS last_date [1..<8] (work, []) h1 of
             (Inl e, h') \<Rightarrow> (Inl e, h')
           | (Inr (work', out), h') \<Rightarrow>
               (Inr \<lparr>division = dv, forecast_days = 7, predictions = out\<rparr>, h'))"

definition hist_st :: "nat \<Rightarrow> pystr \<Rightarrow> store \<Rightarrow> store \<times> nat" where
  "hist_st df_all dv h =
     (let (h1, m) = alloc (Sheet (filter (\<lambda>(d, c, a). c = dv) (sheet_rows (h ! df_all)))) h;
          (h2, s) = alloc (Sheet (sort_values_Date (sheet_rows (h1 ! m)))) h1;
          (h3, p) = alloc (Frame (map (\<lambda>(d, c, a). (d, a)) (sheet_rows (h2 ! s))) []) h2
      in alloc (h3 ! p) h3)"

definition get_data_cached_st ::
  "nat globals \<Rightarrow> real \<Rightarrow> error + sheet \<Rightarrow> store \<Rightarrow> (error + nat) \<times> nat globals \<times> store" where
  "get_data_cached_st g now loaded h =
     (case DATA_df g of
        Some a \<Rightarrow>
          if now - DATA_ts g > real_of_int (CACHE_SECS g) then
            (case loaded of
               Inl e \<Rightarrow> (Inl e, g, h)
             | Inr df' \<Rightarrow>
                 (case alloc (Sheet df') h of
                    (h1, a') \<Rightarrow> (Inr a', g\<lparr>DATA_df := Some a', DATA_ts := now\<rparr>, h1)))
          else (Inr a, g, h)
      | None \<Rightarrow>
          (case loaded of
             Inl e \<Rightarrow> (Inl e, g, h)
           | Inr df' \<Rightarrow>
               (case alloc (Sheet df') h of
                  (h1, a') \<Rightarrow> (Inr a', g\<lparr>DATA_df := Some a', DATA_ts := now\<rparr>, h1))))"

definition predict_st ::
  "nat globals \<Rightarrow> real \<Rightarrow> error + sheet \<Rightarrow> pystr \<Rightarrow> store
   \<Rightarrow> (error + response) \<times> nat globals \<times> store" where
  "predict_st g now loaded division0 h =
     (let dv = strip division0 in
      if dv \<notin> set DIVS then (Inl (HTTPException 400), g, h)
      else
        case map_of (MODELS g) dv of
          None \<Rightarrow> (Inl (HTTPException 500), g, h)
        | Some mdl \<Rightarrow>
            (case get_data_cached_st g now loaded h of
               (Inl e, g', h1) \<Rightarrow> (Inl e, g', h1)
             | (Inr df_all, g', h1) \<Rightarrow>
                 (case hist_st df_all dv h1 of
                    (h2, hist) \<Rightarrow>
                      (case forecast_st mdl (FEATURES g') dv hist h2 of
                         (res, h3) \<Rightarrow> (res, g', h3)))))"

definition abs_globals :: "nat globals \<Rightarrow> store \<Rightarrow> sheet globals" where
  "abs_globals g h =
     \<lparr>MODELS = MODELS g, FEATURES = FEATURES g, CACHE_SECS = CACHE_SECS g,
      DATA_df = map_option (\<lambda>a. sheet_rows (h ! a)) (DATA_df g), DATA_ts = DATA_ts g\<rparr>"

definition cached_ok :: "nat globals \<Rightarrow> store \<Rightarrow> bool" where
  "cached_ok g h = (case DATA_df g of None \<Rightarrow> True | Some a \<Rightarrow> a < length h)"

section \<open>Words of the specification\<close>

text \<open>
  The specification speaks of the value observed \<open>L\<close> days before the reference date,
  the reference date being the date of the last row. \<open>observed_days_before\<close> follows
  these words: it looks the date up in the series. \<open>consecutive_days\<close> says that the
  series has one row for every day from its first date on.
\<close>

definition observed_days_before :: "series \<Rightarrow> nat \<Rightarrow> real option" where
  "observed_days_before work L = map_of work (fst (last work) - int L)"

definition consecutive_days :: "series \<Rightarrow> bool" where
  "consecutive_days work =
     (map fst work = map (\<lambda>i. fst (hd work) + int i) [0..<length work])"

section \<open>Inputs of the examples\<close>

text \<open>
  The series of the values 1 to 20 on consecutive days from \<open>d0\<close> on, and the regressor
  that returns the sum of the fields \<open>lag_1\<close> and \<open>roll7\<close> of the row it is given.
  \<open>g0\<close> is a process with one model, for Dhaka.
\<close>

definition ramp :: "day \<Rightarrow> series" where
  "ramp d0 = map (\<lambda>i. (d0 + int i, 1 + real i)) [0..<20]"

definition field :: "frame \<Rightarrow> string \<Rightarrow> real" where
  "field x k = (case map_of x k of Some [Num r] \<Rightarrow> r | _ \<Rightarrow> 0)"

definition stub :: regressor where
  "stub x = field x ''lag_1'' + field x ''roll7''"

definition g0 :: "sheet globals" where
  "g0 = \<lparr>MODELS = [(codes ''Dhaka'', \<lambda>x. 0)], FEATURES = Some feature_cols, CACHE_SECS = 1800,
          DATA_df = None, DATA_ts = 0\<rparr>"

text \<open>A process whose cache holds the sheet at address 0 of a store; address 1 holds a series.\<close>

definition gS :: "nat globals" where
  "gS = \<lparr>MODELS = [(codes ''Dhaka'', \<lambda>x. 0)], FEATURES = Some feature_cols, CACHE_SECS = 1800,
          DATA_df = Some 0, DATA_ts = 0\<rparr>"

definition hS :: store where
  "hS = [Sheet [(19000, (codes ''Dhaka''), 80)], Frame [(19000, 80)] []]"

text \<open>A sheet with two rows for Dhaka, not in the order of their dates, and one for Sylhet.\<close>

definition sheetA :: sheet where
  "sheetA = [(19001, codes ''Dhaka'', 90), (19000, codes ''Sylhet'', 50), (19000, codes ''Dhaka'', 70)]"

text \<open>The process after the start with the two model files below, and a sheet with one row.\<close>

definition gA :: "sheet globals" where
  "gA = \<lparr>MODELS = [(codes ''Dhaka'', \<lambda>x. 1), (codes ''Rangpur'', \<lambda>x. 2)],
          FEATURES = Some [''lag_2''], CACHE_SECS = 1800, DATA_df = None, DATA_ts = 0\<rparr>"

definition sheetB :: sheet where
  "sheetB = [(19000, codes ''Dhaka'', 80)]"

text \<open>Two model files whose schemas differ: Dhaka is loaded first, Rangpur last.\<close>

definition filesA :: "pystr \<rightharpoonup> pkl" where
  "filesA = map_of [(codes ''Dhaka'', \<lparr>model = \<lambda>x. 1, features = [''lag_1'']\<rparr>),
                    (codes ''Rangpur'', \<lparr>model = \<lambda>x. 2, features = [''lag_2'']\<rparr>)]"

section \<open>Column names\<close>

lemma lag_names:
  "map lag_name [1..<15] =
     [''lag_1'', ''lag_2'', ''lag_3'', ''lag_4'', ''lag_5'', ''lag_6'', ''lag_7'',
      ''lag_8'', ''lag_9'', ''lag_10'', ''lag_11'', ''lag_12'', ''lag_13'', ''lag_14'']"
  by (simp add: upt_rec lag_name_def str_nat.simps)

lemma upt_1_15: "[1..<15] = [1, 2, 3, 4, 5, 6, 7, 8, 9, 10, 11, 12, 13, 14::nat]"
  by (simp add: upt_rec)

lemma upt_1_8: "[1..<8] = [1, 2, 3, 4, 5, 6, 7::nat]"
  by (simp add: upt_rec)

lemma lag_name_lits:
  "lag_name 1 = ''lag_1''" "lag_name 2 = ''lag_2''" "lag_name 3 = ''lag_3''"
  "lag_name 4 = ''lag_4''" "lag_name 5 = ''lag_5''" "lag_name 6 = ''lag_6''"
  "lag_name 7 = ''lag_7''" "lag_name 8 = ''lag_8''" "lag_name 9 = ''lag_9''"
  "lag_name 10 = ''lag_10''" "lag_name 11 = ''lag_11''" "lag_name 12 = ''lag_12''"
  "lag_name 13 = ''lag_13''" "lag_name 14 = ''lag_14''" "lag_name (Suc 0) = ''lag_1''"
  by (simp_all add: lag_name_def str_nat.simps)

lemma feature_cols_lits:
  "feature_cols =
     [''lag_1'', ''lag_2'', ''lag_3'', ''lag_4'', ''lag_5'', ''lag_6'', ''lag_7'',
      ''lag_8'', ''lag_9'', ''lag_10'', ''lag_11'', ''lag_12'', ''lag_13'', ''lag_14'',
      ''roll7'', ''roll14'', ''dow'', ''mon'', ''doy'']"
  unfolding feature_cols_def lag_names by simp

lemma build_feats_cols:
  "build_feats work =
     (let w = sort_values_Date work;
          Date = map fst w;
          AQI = map Num (map snd w)
      in [(''Date'', map Stamp Date), (''AQI'', AQI),
          (''lag_1'', shift 1 AQI), (''lag_2'', shift 2 AQI), (''lag_3'', shift 3 AQI),
          (''lag_4'', shift 4 AQI), (''lag_5'', shift 5 AQI), (''lag_6'', shift 6 AQI),
          (''lag_7'', shift 7 AQI), (''lag_8'', shift 8 AQI), (''lag_9'', shift 9 AQI),
          (''lag_10'', shift 10 AQI), (''lag_11'', shift 11 AQI), (''lag_12'', shift 12 AQI),
          (''lag_13'', shift 13 AQI), (''lag_14'', shift 14 AQI),
          (''roll7'', rolling_mean 7 (shift 1 AQI)),
          (''roll14'', rolling_mean 14 (shift 1 AQI)),
          (''dow'', map (\<lambda>d. Num (real (dayofweek d))) Date),
          (''mon'', map (\<lambda>d. Num (real (month d))) Date),
          (''doy'', map (\<lambda>d. Num (real (dayofyear d))) Date)])"
  unfolding build_feats_def upt_1_15 Let_def by (simp add: lag_name_lits)

lemma cols_build_feats: "map fst (build_feats work) = ''Date'' # ''AQI'' # feature_cols"
  by (simp add: build_feats_cols Let_def feature_cols_lits)

lemma lag_cases:
  "1 \<le> L \<Longrightarrow> L \<le> 14 \<Longrightarrow> L \<in> {1, 2, 3, 4, 5, 6, 7, 8, 9, 10, 11, 12, 13, 14::nat}"
  by (simp; arith)

lemma map_of_lag:
  assumes "1 \<le> L" "L \<le> 14"
  shows "map_of (build_feats work) (lag_name L) =
           Some (shift L (map Num (map snd (sort_values_Date work))))"
proof -
  from assms have "L \<in> {1, 2, 3, 4, 5, 6, 7, 8, 9, 10, 11, 12, 13, 14::nat}"
    by (rule lag_cases)
  then show ?thesis
    by (auto simp: build_feats_cols Let_def lag_name_lits)
qed

lemma map_of_roll7:
  "map_of (build_feats work) ''roll7'' =
     Some (rolling_mean 7 (shift 1 (map Num (map snd (sort_values_Date work)))))"
  by (simp add: build_feats_cols Let_def comp_def)

lemma map_of_roll14:
  "map_of (build_feats work) ''roll14'' =
     Some (rolling_mean 14 (shift 1 (map Num (map snd (sort_values_Date work)))))"
  by (simp add: build_feats_cols Let_def comp_def)

section \<open>The last row of a column\<close>

lemma sort_values_Date_id:
  "sorted_wrt (<) (map fst work) \<Longrightarrow> sort_values_Date work = work"
  unfolding sort_values_Date_def
  by (rule sort_key_id_if_sorted) (simp add: strict_sorted_imp_sorted)

lemma length_shift [simp]: "length (shift L xs) = length xs"
  by (simp add: shift_def)

lemma shift_nth:
  "i < length xs \<Longrightarrow> shift L xs ! i = (if i < L then NaN else xs ! (i - L))"
  by (auto simp: shift_def nth_append)

lemma length_rolling_mean [simp]: "length (rolling_mean w xs) = length xs"
  by (simp add: rolling_mean_def)

lemma tail_1: "xs \<noteq> [] \<Longrightarrow> tail 1 xs = [xs ! (length xs - 1)]"
  unfolding tail_def
  by (cases xs rule: rev_cases) simp_all

lemma nums_map_Num [simp]: "nums (map Num ys) = ys"
  by (induction ys) simp_all

lemma shift_1_Num:
  "vals \<noteq> [] \<Longrightarrow> shift (Suc 0) (map Num vals) = NaN # map Num (butlast vals)"
  by (cases vals rule: rev_cases) (simp_all add: shift_def)

lemma last_rolling_mean:
  assumes "vals \<noteq> []" "0 < w"
  shows "tail 1 (rolling_mean w (shift 1 (map Num vals))) =
           [if w < length vals then Num (mean (tail w (butlast vals))) else NaN]"
proof -
  let ?n = "length vals"
  let ?xs = "shift 1 (map Num vals)"
  have n: "0 < ?n" using assms by simp
  have len: "length (rolling_mean w ?xs) = ?n" by simp
  have ne: "rolling_mean w ?xs \<noteq> []" using n len by (metis length_greater_0_conv)
  have win: "drop (?n - 1 + 1 - w) (take (?n - 1 + 1) ?xs) =
      drop (?n - w) (NaN # map Num (butlast vals))"
    using n assms by (simp add: shift_1_Num)
  have nth: "rolling_mean w ?xs ! (?n - 1) =
      (let obs = nums (drop (?n - w) (NaN # map Num (butlast vals)))
       in if w \<le> length obs then Num (mean obs) else NaN)"
    using n win by (simp add: rolling_mean_def)
  show ?thesis
  proof (cases "w < ?n")
    case True
    then obtain k where k: "?n - w = Suc k" by (metis Suc_diff_Suc)
    then have k': "k = ?n - 1 - w" by simp
    have "drop (?n - w) (NaN # map Num (butlast vals)) = map Num (tail w (butlast vals))"
      by (simp add: k tail_def drop_map k')
    with True nth show ?thesis
      using tail_1 [OF ne] len by (simp add: Let_def tail_def)
  next
    case False
    then have "?n - w = 0" by simp
    moreover have "\<not> w \<le> ?n - Suc 0" using False n by arith
    ultimately show ?thesis
      using nth tail_1 [OF ne] len by (simp add: Let_def)
  qed
qed

lemma last_shift:
  assumes "xs \<noteq> []"
  shows "tail 1 (shift L xs) = [if L < length xs then xs ! (length xs - 1 - L) else NaN]"
proof -
  have ne: "shift L xs \<noteq> []" using assms by (metis length_shift length_0_conv)
  have "length xs - 1 < length xs" using assms by simp
  then show ?thesis
    using tail_1 [OF ne] by (auto simp: shift_nth)
qed

lemma map_of_iloc_last:
  "map_of (iloc_last fr) k = map_option (tail 1) (map_of fr k)"
  unfolding iloc_last_def by (induction fr) auto

lemma cols_iloc_last: "map fst (iloc_last fr) = map fst fr"
  by (induction fr) (auto simp: iloc_last_def)

section \<open>The rollout returns\<close>

lemma getitem_ok:
  "set fs \<subseteq> fst ` set fr \<Longrightarrow> \<exists>x. getitem fr fs = Inr x \<and> map fst x = fs"
proof (induction fs)
  case Nil
  then show ?case by simp
next
  case (Cons f fs)
  then obtain x where x: "getitem fr fs = Inr x" "map fst x = fs" by auto
  from Cons.prems have "f \<in> fst ` set fr" by simp
  then obtain col where "map_of fr f = Some col"
    by (metis map_of_eq_None_iff not_Some_eq)
  with x show ?case by simp
qed

lemma forecast_step_ok:
  assumes "set fs \<subseteq> set (''Date'' # ''AQI'' # feature_cols)"
  shows "\<exists>pred. forecast_step mdl (Some fs) last_date (work, out) step =
           Inr (work @ [(last_date + int step, pred)],
                out @ [\<lparr>date = last_date + int step, predicted_aqi = pred\<rparr>])"
proof -
  have "set fs \<subseteq> fst ` set (iloc_last (build_feats work))"
    using assms cols_build_feats [of work] cols_iloc_last [of "build_feats work"]
    by (metis set_map)
  then obtain x where "getitem (iloc_last (build_feats work)) fs = Inr x"
    using getitem_ok by blast
  then show ?thesis
    by (simp add: forecast_step_def Let_def)
qed

lemma forecast_loop_ok:
  assumes "set fs \<subseteq> set (''Date'' # ''AQI'' # feature_cols)"
  shows "\<exists>work' ps.
           forecast_loop mdl (Some fs) last_date steps (work, out) = Inr (work', out @ ps)
           \<and> map date ps = map (\<lambda>s. last_date + int s) steps"
proof (induction steps arbitrary: work out)
  case Nil
  then show ?case by simp
next
  case (Cons s steps)
  let ?p = "\<lambda>pred. \<lparr>date = last_date + int s, predicted_aqi = pred\<rparr>"
  obtain pred where st: "forecast_step mdl (Some fs) last_date (work, out) s =
      Inr (work @ [(last_date + int s, pred)], out @ [?p pred])"
    using forecast_step_ok [OF assms] by blast
  obtain work' ps where
    "forecast_loop mdl (Some fs) last_date steps
       (work @ [(last_date + int s, pred)], out @ [?p pred])
     = Inr (work', (out @ [?p pred]) @ ps)"
    and "map date ps = map (\<lambda>s. last_date + int s) steps"
    using Cons.IH by blast
  with st show ?case
    by (intro exI [of _ work'] exI [of _ "?p pred # ps"]) simp
qed

section \<open>The fallback\<close>

lemma getitem_mem:
  "getitem fr fs = Inr x \<Longrightarrow> f \<in> set fs \<Longrightarrow> map_of fr f = Some col \<Longrightarrow> (f, col) \<in> set x"
proof (induction fs arbitrary: x)
  case Nil
  then show ?case by simp
next
  case (Cons g gs)
  then show ?case
    by (auto split: option.splits sum.splits)
qed

lemma isna_anyI: "(f, col) \<in> set x \<Longrightarrow> NaN \<in> set col \<Longrightarrow> isna_any x"
  unfolding isna_any_def list_ex_iff by force

lemma forecast_step_fallback:
  assumes "getitem (iloc_last (build_feats work)) fs = Inr x" "isna_any x"
  shows "forecast_step mdl (Some fs) last_date (work, out) step =
           Inr (work @ [(last_date + int step, mean (tail 7 (map snd work)))],
                out @ [\<lparr>date = last_date + int step,
                        predicted_aqi = mean (tail 7 (map snd work))\<rparr>])"
  using assms by (simp add: forecast_step_def Let_def)

lemma length_sort_values_Date [simp]: "length (sort_values_Date work) = length work"
  by (simp add: sort_values_Date_def)

lemma short_history_isna:
  assumes "work \<noteq> []" "length work \<le> 14"
  shows "\<exists>x. getitem (iloc_last (build_feats work)) feature_cols = Inr x \<and> isna_any x"
proof -
  have "set feature_cols \<subseteq> fst ` set (iloc_last (build_feats work))"
    using cols_build_feats [of work] cols_iloc_last [of "build_feats work"]
    by (metis set_map set_subset_Cons subset_trans)
  then obtain x where x: "getitem (iloc_last (build_feats work)) feature_cols = Inr x"
    using getitem_ok by blast
  let ?aqi = "map Num (map snd (sort_values_Date work))"
  have "sort_values_Date work \<noteq> []"
    using assms(1) by (metis length_0_conv length_sort_values_Date)
  then have ne: "?aqi \<noteq> []" by simp
  have "map_of (iloc_last (build_feats work)) (lag_name 14) = Some (tail 1 (shift 14 ?aqi))"
    using map_of_lag [of 14 work] by (simp only: map_of_iloc_last) simp
  moreover have "tail 1 (shift 14 ?aqi) = [NaN]"
    using last_shift [OF ne, of 14] assms(2) by simp
  ultimately have "map_of (iloc_last (build_feats work)) ''lag_14'' = Some [NaN]"
    by (simp add: lag_name_lits)
  moreover have "''lag_14'' \<in> set feature_cols" by (simp add: feature_cols_lits)
  ultimately have "(''lag_14'', [NaN]) \<in> set x" using x getitem_mem by blast
  then have "isna_any x" by (rule isna_anyI) simp
  with x show ?thesis by blast
qed

lemma upt_Suc0_8: "[Suc 0..<8] = [Suc 0, 2, 3, 4, 5, 6, 7]"
  using upt_1_8 by simp

lemma forecast_first:
  assumes "hist \<noteq> []" "set fs \<subseteq> set (''Date'' # ''AQI'' # feature_cols)"
    "forecast_step mdl (Some fs) (Max (set (map fst hist))) (hist, []) 1 = Inr (work1, [p])"
  shows "\<exists>ps. forecast mdl (Some fs) dv hist =
           Inr \<lparr>division = dv, forecast_days = 7, predictions = p # ps\<rparr>"
proof -
  let ?ld = "Max (set (map fst hist))"
  obtain work' ps where
    "forecast_loop mdl (Some fs) ?ld [2, 3, 4, 5, 6, 7] (work1, [p]) = Inr (work', [p] @ ps)"
    using forecast_loop_ok [OF assms(2)] by blast
  with assms(1,3) show ?thesis
    by (simp add: forecast_def Let_def upt_Suc0_8)
qed

section \<open>The division name\<close>

lemma DIVS_trim:
  assumes "dv \<in> set DIVS"
  shows "dv \<noteq> [] \<and> \<not> is_space (hd dv) \<and> \<not> is_space (last dv)"
proof -
  from assms have "dv = codes ''Dhaka'' \<or> dv = codes ''Chattogram'' \<or> dv = codes ''Sylhet''
      \<or> dv = codes ''Khulna'' \<or> dv = codes ''Rajshahi'' \<or> dv = codes ''Barishal''
      \<or> dv = codes ''Mymensingh'' \<or> dv = codes ''Rangpur''"
    by (simp add: codes_def DIVS_def)
  then show ?thesis
    by (elim disjE) (simp_all add: codes_def is_space_def)
qed

lemma strip_trimmed:
  assumes "s \<noteq> []" "\<not> is_space (hd s)" "\<not> is_space (last s)"
    "list_all is_space a" "list_all is_space b"
  shows "strip (a @ s @ b) = s"
proof -
  from assms(1,2) obtain c cs where s: "s = c # cs" "\<not> is_space c"
    by (cases s) auto
  have 1: "dropWhile is_space (a @ s @ b) = s @ b"
    using assms(4) s by (simp add: dropWhile_append2 list_all_iff)
  from assms(1) obtain e es where r: "rev s = e # es"
    by (cases "rev s") auto
  then have "e = last s"
    using assms(1) by (metis hd_rev list.sel(1))
  with assms(3) have e: "\<not> is_space e" by simp
  have "\<And>x. x \<in> set (rev b) \<Longrightarrow> is_space x"
    using assms(5) by (simp add: list_all_iff)
  then have "dropWhile is_space (rev b @ rev s) = dropWhile is_space (rev s)"
    by (rule dropWhile_append2)
  also have "\<dots> = rev s" unfolding r using e by simp
  finally have 2: "dropWhile is_space (rev b @ rev s) = rev s" .
  show ?thesis unfolding strip_def 1 by (simp add: 2)
qed

lemma strip_idem: "strip (strip s) = strip s"
proof (cases "strip s = []")
  case True
  have "strip [] = []" by (simp add: strip_def)
  with True show ?thesis by simp
next
  case False
  let ?t = "dropWhile is_space s"
  let ?u = "dropWhile is_space (rev ?t)"
  have u: "strip s = rev ?u" by (simp add: strip_def)
  with False have une: "?u \<noteq> []" by simp
  then have hu: "\<not> is_space (hd ?u)" by (rule hd_dropWhile)
  have "\<exists>p. rev ?t = p @ ?u" by (metis takeWhile_dropWhile_id)
  then obtain p where "rev ?t = p @ ?u" ..
  then have t: "?t = rev ?u @ rev p" by (metis rev_append rev_rev_ident)
  from une have "?t \<noteq> []" by (metis dropWhile.simps(1) rev.simps(1))
  then have "\<not> is_space (hd ?t)" by (rule hd_dropWhile)
  with t une have "\<not> is_space (hd (rev ?u))" by (metis hd_append2 rev_is_Nil_conv)
  moreover have "last (rev ?u) = hd ?u" using une by (simp add: last_rev)
  ultimately have "strip ([] @ rev ?u @ []) = rev ?u"
    using hu une by (intro strip_trimmed) simp_all
  then show ?thesis by (simp add: u)
qed

lemma predict_strip: "strip d = strip d' \<Longrightarrow> predict g now loaded d = predict g now loaded d'"
  by (simp add: predict_def)

section \<open>Loading the models\<close>

lemma map_of_replace:
  "map_of (map (\<lambda>p. if fst p = k then (fst p, v) else p) al) x =
     (if x = k then map_option (\<lambda>_. v) (map_of al k) else map_of al x)"
proof (induction al)
  case Nil
  then show ?case by simp
next
  case (Cons a al)
  show ?case
  proof (cases "x = k")
    case True
    with Cons show ?thesis by simp
  next
    case False
    with Cons show ?thesis by simp
  qed
qed

lemma map_of_setitem: "map_of (setitem k v al) = (map_of al)(k \<mapsto> v)"
proof (cases "k \<in> fst ` set al")
  case True
  then obtain w where w: "map_of al k = Some w"
    by (metis map_of_eq_None_iff not_Some_eq)
  have "(\<lambda>(k', v'). if k' = k then (k', v) else (k', v')) =
      (\<lambda>p. if fst p = k then (fst p, v) else p)"
    by (simp add: fun_eq_iff)
  then have "setitem k v al = map (\<lambda>p. if fst p = k then (fst p, v) else p) al"
    using True by (simp add: setitem_def)
  then show ?thesis
    using w by (simp add: fun_eq_iff map_of_replace)
next
  case False
  then have "map_of al k = None" by (simp add: map_of_eq_None_iff)
  then have "[k \<mapsto> v] ++ map_of al = (map_of al)(k \<mapsto> v)"
    by (auto simp: fun_eq_iff map_add_def split: option.splits)
  with False show ?thesis by (simp add: setitem_def)
qed

lemma fold_load_one:
  "fold (load_one files) ds (ms, fs) = (ms', fs') \<Longrightarrow>
     fs' = (case filter (\<lambda>d. files d \<noteq> None) ds of
              [] \<Rightarrow> fs
            | e # es \<Rightarrow> map_option features (files (last (e # es))))
     \<and> (\<forall>d. map_of ms' d =
            (if d \<in> set ds \<and> files d \<noteq> None then map_option model (files d) else map_of ms d))"
proof (induction ds arbitrary: ms' fs' rule: rev_induct)
  case Nil
  then show ?case by simp
next
  case (snoc d ds)
  obtain ms1 fs1 where f: "fold (load_one files) ds (ms, fs) = (ms1, fs1)"
    by (cases "fold (load_one files) ds (ms, fs)")
  note ih = snoc.IH [OF f]
  from snoc.prems have "load_one files d (fold (load_one files) ds (ms, fs)) = (ms', fs')"
    by simp
  with f have step: "load_one files d (ms1, fs1) = (ms', fs')" by simp
  show ?case
  proof (cases "files d")
    case None
    with step have "ms' = ms1" "fs' = fs1" by (simp_all add: load_one_def)
    with ih None show ?thesis by auto
  next
    case (Some obj)
    with step have e: "ms' = setitem d (model obj) ms1" "fs' = Some (features obj)"
      by (auto simp: load_one_def)
    have "filter (\<lambda>d. files d \<noteq> None) (ds @ [d]) = filter (\<lambda>d. files d \<noteq> None) ds @ [d]"
      using Some by simp
    then have 1: "fs' = (case filter (\<lambda>d. files d \<noteq> None) (ds @ [d]) of
              [] \<Rightarrow> fs
            | e # es \<Rightarrow> map_option features (files (last (e # es))))"
      using e Some by (cases "filter (\<lambda>d. files d \<noteq> None) ds") simp_all
    have 2: "\<forall>d'. map_of ms' d' =
        (if d' \<in> set (ds @ [d]) \<and> files d' \<noteq> None then map_option model (files d')
         else map_of ms d')"
      using ih e Some by (auto simp: map_of_setitem)
    from 1 2 show ?thesis by blast
  qed
qed

section \<open>The ramp\<close>

lemma ramp_lits:
  "ramp d0 = [(d0, 1), (d0 + 1, 2), (d0 + 2, 3), (d0 + 3, 4), (d0 + 4, 5), (d0 + 5, 6),
     (d0 + 6, 7), (d0 + 7, 8), (d0 + 8, 9), (d0 + 9, 10), (d0 + 10, 11), (d0 + 11, 12),
     (d0 + 12, 13), (d0 + 13, 14), (d0 + 14, 15), (d0 + 15, 16), (d0 + 16, 17),
     (d0 + 17, 18), (d0 + 18, 19), (d0 + 19, 20)]"
  by (simp add: ramp_def upt_rec)

lemma sorted_ramp: "sorted_wrt (<) (map fst (ramp d0))"
  by (simp add: ramp_lits)

lemma Max_ramp: "Max (set (map fst (ramp d0))) = d0 + 19"
  by (simp add: ramp_lits)

lemma tail_map: "tail k (map f xs) = map f (tail k xs)"
  by (simp add: tail_def drop_map)

lemma row_ramp:
  "getitem (iloc_last (build_feats (ramp d0))) feature_cols =
     Inr [(''lag_1'', [Num 19]), (''lag_2'', [Num 18]), (''lag_3'', [Num 17]),
          (''lag_4'', [Num 16]), (''lag_5'', [Num 15]), (''lag_6'', [Num 14]),
          (''lag_7'', [Num 13]), (''lag_8'', [Num 12]), (''lag_9'', [Num 11]),
          (''lag_10'', [Num 10]), (''lag_11'', [Num 9]), (''lag_12'', [Num 8]),
          (''lag_13'', [Num 7]), (''lag_14'', [Num 6]), (''roll7'', [Num 16]),
          (''roll14'', [Num (25 / 2)]),
          (''dow'', [Num (real (dayofweek (d0 + 19)))]),
          (''mon'', [Num (real (month (d0 + 19)))]),
          (''doy'', [Num (real (dayofyear (d0 + 19)))])]"
proof -
  have s: "sort_values_Date (ramp d0) = ramp d0"
    by (rule sort_values_Date_id [OF sorted_ramp])
  have ne: "map snd (ramp d0) \<noteq> []" by (simp add: ramp_lits)
  have r7: "tail 1 (rolling_mean 7 (shift 1 (map Num (map snd (ramp d0))))) = [Num 16]"
    unfolding last_rolling_mean [OF ne zero_less_numeral]
    by (simp add: ramp_lits tail_def mean_def)
  have r14: "tail 1 (rolling_mean 14 (shift 1 (map Num (map snd (ramp d0))))) = [Num (25 / 2)]"
    unfolding last_rolling_mean [OF ne zero_less_numeral]
    by (simp add: ramp_lits tail_def mean_def)
  have b: "iloc_last (build_feats (ramp d0)) =
     [(''Date'', [Stamp (d0 + 19)]), (''AQI'', [Num 20]),
      (''lag_1'', [Num 19]), (''lag_2'', [Num 18]), (''lag_3'', [Num 17]),
      (''lag_4'', [Num 16]), (''lag_5'', [Num 15]), (''lag_6'', [Num 14]),
      (''lag_7'', [Num 13]), (''lag_8'', [Num 12]), (''lag_9'', [Num 11]),
      (''lag_10'', [Num 10]), (''lag_11'', [Num 9]), (''lag_12'', [Num 8]),
      (''lag_13'', [Num 7]), (''lag_14'', [Num 6]), (''roll7'', [Num 16]),
      (''roll14'', [Num (25 / 2)]),
      (''dow'', [Num (real (dayofweek (d0 + 19)))]),
      (''mon'', [Num (real (month (d0 + 19)))]),
      (''doy'', [Num (real (dayofyear (d0 + 19)))])]"
    unfolding build_feats_cols s Let_def iloc_last_def list.map prod.case r7 r14
    by (simp add: ramp_lits tail_def shift_def)
  show ?thesis
    unfolding b feature_cols_lits by simp
qed


lemma getitem_map_of:
  "getitem fr fs = Inr x \<Longrightarrow> f \<in> set fs \<Longrightarrow> map_of x f = map_of fr f"
proof (induction fs arbitrary: x)
  case Nil
  then show ?case by simp
next
  case (Cons g gs)
  then show ?case
    by (auto split: option.splits sum.splits)
qed

lemma step1_ramp:
  "forecast_step stub (Some feature_cols) (d0 + 19) (ramp d0, []) 1 =
     Inr (ramp d0 @ [(d0 + 20, 35)], [\<lparr>date = d0 + 20, predicted_aqi = 35\<rparr>])"
  by (simp add: forecast_step_def row_ramp isna_any_def stub_def field_def Let_def)

lemma sorted_ramp1: "sorted_wrt (<) (map fst (ramp d0 @ [(d0 + 20, 35)]))"
  by (simp add: ramp_lits)

lemma lag1_step2_ramp:
  "map_of (iloc_last (build_feats (ramp d0 @ [(d0 + 20, 35)]))) ''lag_1'' = Some [Num 20]"
proof -
  let ?w = "ramp d0 @ [(d0 + 20, 35)]"
  have s: "sort_values_Date ?w = ?w"
    by (rule sort_values_Date_id [OF sorted_ramp1])
  have ne: "map Num (map snd ?w) \<noteq> []" by simp
  have "map_of (iloc_last (build_feats ?w)) (lag_name 1) =
      Some (tail 1 (shift 1 (map Num (map snd ?w))))"
    using map_of_lag [of 1 ?w] by (simp only: map_of_iloc_last s) simp
  also have "tail 1 (shift 1 (map Num (map snd ?w))) = [Num 20]"
    unfolding last_shift [OF ne] by (simp add: ramp_lits)
  finally show ?thesis by (simp add: lag_name_lits)
qed

lemma FEATURES_get_data_cached:
  "FEATURES (snd (get_data_cached g now loaded)) = FEATURES g"
  by (simp add: get_data_cached_def split: option.splits sum.splits)

lemma strip_DIVS: "dv \<in> set DIVS \<Longrightarrow> strip dv = dv"
  using strip_trimmed [of dv "[]" "[]"] DIVS_trim [of dv] by simp

section \<open>The row after an appended prediction\<close>

text \<open>
  After a row with a later date is appended to a series, the \<open>lag_1\<close> field of the last
  row of the feature table is the last value of the series before the append.
\<close>

lemma sorted_snoc:
  fixes hist :: series
  assumes "hist \<noteq> []" "sorted_wrt (<) (map fst hist)" "fst (last hist) < t"
  shows "sorted_wrt (<) (map fst (hist @ [(t, p)]))"
proof -
  let ?ds = "map fst hist"
  have srt: "sorted ?ds" using assms(2) by (simp add: strict_sorted_imp_sorted)
  have ne: "?ds \<noteq> []" using assms(1) by simp
  have lst: "last ?ds = fst (last hist)" using assms(1) by (simp add: last_map)
  have "x \<le> fst (last hist)" if "x \<in> set ?ds" for x
  proof -
    from that obtain i where i: "i < length ?ds" "?ds ! i = x"
      by (auto simp: in_set_conv_nth)
    have j: "length ?ds - 1 < length ?ds" using ne by simp
    from i(1) have "i \<le> length ?ds - 1" by simp
    from sorted_nth_mono [OF srt this j] have "?ds ! i \<le> ?ds ! (length ?ds - 1)" .
    also have "?ds ! (length ?ds - 1) = last ?ds" using ne by (simp add: last_conv_nth)
    finally show ?thesis using i(2) lst by simp
  qed
  then have "\<forall>x\<in>set (map fst hist). x < t" using assms(3) by fastforce
  with assms(2) show ?thesis by (simp add: sorted_wrt_append)
qed

lemma lag1_after_append:
  assumes "hist \<noteq> []" "sorted_wrt (<) (map fst hist)" "fst (last hist) < t"
  shows "map_of (iloc_last (build_feats (hist @ [(t, p)]))) ''lag_1'' = Some [Num (snd (last hist))]"
proof -
  let ?w = "hist @ [(t, p)]"
  have s: "sort_values_Date ?w = ?w"
    by (rule sort_values_Date_id [OF sorted_snoc [OF assms]])
  have ne: "map Num (map snd ?w) \<noteq> []" by simp
  have "map_of (iloc_last (build_feats ?w)) (lag_name 1) =
      Some (tail 1 (shift 1 (map Num (map snd ?w))))"
    using map_of_lag [of 1 ?w] by (simp only: map_of_iloc_last s) simp
  also have "tail 1 (shift 1 (map Num (map snd ?w))) = [Num (snd (last hist))]"
    unfolding last_shift [OF ne] using assms(1)
    by (simp add: nth_append last_conv_nth)
  finally show ?thesis by (simp add: lag_name_lits)
qed

section \<open>The store model and the value model agree\<close>

lemma assign_new:
  "assign (Suc (length h)) name col (h @ [a, Frame s ex]) = h @ [a, Frame s (setitem name col ex)]"
  by (simp add: assign_def nth_append list_update_append)

lemma nth_new: "(h @ [a, b]) ! Suc (length h) = b"
  by (simp add: nth_append)

lemma fold_lags:
  "fold (\<lambda>L h'. assign (Suc (length h)) (lag_name L) (shift L (AQI_of (h' ! Suc (length h)))) h')
     [1, 2, 3, 4, 5, 6, 7, 8, 9, 10, 11, 12, 13, 14] (h @ [a, Frame s []]) =
   h @ [a, Frame s [(''lag_1'', shift 1 (map Num (map snd s))), (''lag_2'', shift 2 (map Num (map snd s))),
      (''lag_3'', shift 3 (map Num (map snd s))), (''lag_4'', shift 4 (map Num (map snd s))),
      (''lag_5'', shift 5 (map Num (map snd s))), (''lag_6'', shift 6 (map Num (map snd s))),
      (''lag_7'', shift 7 (map Num (map snd s))), (''lag_8'', shift 8 (map Num (map snd s))),
      (''lag_9'', shift 9 (map Num (map snd s))), (''lag_10'', shift 10 (map Num (map snd s))),
      (''lag_11'', shift 11 (map Num (map snd s))), (''lag_12'', shift 12 (map Num (map snd s))),
      (''lag_13'', shift 13 (map Num (map snd s))), (''lag_14'', shift 14 (map Num (map snd s)))]]"
  by (simp add: assign_new nth_new AQI_of_def setitem_def lag_name_lits del: map_map)


lemma build_feats_st_eq:
  assumes "h ! w = Frame s []"
  shows "build_feats_st w h =
           (h @ [Frame s [], Frame (sort_values_Date s) (drop 2 (build_feats s))], Suc (length h))"
proof -
  let ?s = "sort_values_Date s"
  let ?A = "map Num (map snd ?s)"
  let ?D = "map fst ?s"
  let ?b = "Suc (length h)"
  have a1: "alloc (h ! w) h = (h @ [Frame s []], length h)"
    by (simp add: alloc_def assms)
  have a2: "alloc (Frame (sort_values_Date (rows ((h @ [Frame s []]) ! length h))) []) (h @ [Frame s []])
      = (h @ [Frame s [], Frame ?s []], ?b)"
    by (simp add: alloc_def)
  note f = fold_lags [of h "Frame s []" ?s]
  have d: "drop 2 (build_feats s) =
      [(''lag_1'', shift 1 ?A), (''lag_2'', shift 2 ?A), (''lag_3'', shift 3 ?A),
       (''lag_4'', shift 4 ?A), (''lag_5'', shift 5 ?A), (''lag_6'', shift 6 ?A),
       (''lag_7'', shift 7 ?A), (''lag_8'', shift 8 ?A), (''lag_9'', shift 9 ?A),
       (''lag_10'', shift 10 ?A), (''lag_11'', shift 11 ?A), (''lag_12'', shift 12 ?A),
       (''lag_13'', shift 13 ?A), (''lag_14'', shift 14 ?A),
       (''roll7'', rolling_mean 7 (shift 1 ?A)), (''roll14'', rolling_mean 14 (shift 1 ?A)),
       (''dow'', map (\<lambda>d. Num (real (dayofweek d))) ?D),
       (''mon'', map (\<lambda>d. Num (real (month d))) ?D),
       (''doy'', map (\<lambda>d. Num (real (dayofyear d))) ?D)]"
    unfolding build_feats_cols Let_def by (simp del: map_map)
  show ?thesis
    unfolding build_feats_st_def a1 Let_def prod.case a2 upt_1_15 f d
    by (simp add: assign_new nth_new AQI_of_def Date_of_def setitem_def del: map_map)
qed


lemma view_build_feats:
  "view (Frame (sort_values_Date s) (drop 2 (build_feats s))) = build_feats s"
  by (simp add: build_feats_cols Let_def del: map_map)

lemma forecast_step_st_eq:
  assumes "w < length h" "h ! w = Frame s []"
  shows "forecast_step_st mdl FEATS last_date (w, out) step h =
     (let pre = [Frame s [], Frame (sort_values_Date s) (drop 2 (build_feats s)),
                 Cols (iloc_last (build_feats s))]
      in case (case FEATS of None \<Rightarrow> Inl (KeyError ''None'')
               | Some fs \<Rightarrow> getitem (iloc_last (build_feats s)) fs) of
           Inl e \<Rightarrow> (Inl e, h @ pre)
         | Inr xf \<Rightarrow>
             let pred = (if isna_any xf then mean (tail 7 (map snd s)) else mdl xf);
                 target_date = last_date + int step
             in (Inr (length h + 5, out @ [\<lparr>date = target_date, predicted_aqi = pred\<rparr>]),
                 h @ pre @ [Cols xf, Frame [(target_date, pred)] [],
                            Frame (s @ [(target_date, pred)]) []]))"
proof -
  have w: "(h @ xs) ! w = Frame s []" for xs
    using assms by (simp add: nth_append)
  have n2: "(h @ [a, b, c]) ! Suc (Suc (length h)) = c" for a b c
    by (simp add: nth_append)
  have n3: "(h @ [a, b, c, d]) ! Suc (Suc (Suc (length h))) = d" for a b c d
    by (simp add: nth_append)
  have n4: "(h @ [a, b, c, d, e]) ! Suc (Suc (Suc (Suc (length h)))) = e" for a b c d e
    by (simp add: nth_append)
  show ?thesis
    unfolding forecast_step_st_def prod.case build_feats_st_eq [OF assms(2)] Let_def alloc_def
    by (simp add: nth_new view_build_feats n2 n3 n4 w del: view.simps(1)
          split: option.splits sum.splits)
qed


lemma prefix_trans:
  "take (length a) b = a \<Longrightarrow> take (length b) c = b \<Longrightarrow> take (length a) c = a"
  by (metis length_take min.cobounded1 min_def take_take)

lemma prefix_length: "take (length a) b = a \<Longrightarrow> length a \<le> length b"
  by (metis length_take min.cobounded1)

lemma prefix_nth: "take (length a) b = a \<Longrightarrow> i < length a \<Longrightarrow> b ! i = a ! i"
  by (metis nth_take)

lemma step_sim:
  assumes "w < length h" "h ! w = Frame s []"
  shows "take (length h) (snd (forecast_step_st mdl FEATS ld (w, out) step h)) = h
       \<and> (case forecast_step mdl FEATS ld (s, out) step of
            Inl e \<Rightarrow> fst (forecast_step_st mdl FEATS ld (w, out) step h) = Inl e
          | Inr (s', out') \<Rightarrow>
              (\<exists>w'. fst (forecast_step_st mdl FEATS ld (w, out) step h) = Inr (w', out')
                 \<and> w' < length (snd (forecast_step_st mdl FEATS ld (w, out) step h))
                 \<and> snd (forecast_step_st mdl FEATS ld (w, out) step h) ! w' = Frame s' []))"
proof -
  have n5: "(h @ [a, b, c, d, e, f]) ! (length h + 5) = f" for a b c d e f
    by (simp add: nth_append)
  show ?thesis
    unfolding forecast_step_st_eq [OF assms] forecast_step_def
    by (auto simp: Let_def n5 split: option.splits sum.splits)
qed

lemma loop_sim:
  assumes "w < length h" "h ! w = Frame s []"
  shows "take (length h) (snd (forecast_loop_st mdl FEATS ld steps (w, out) h)) = h
       \<and> (case forecast_loop mdl FEATS ld steps (s, out) of
            Inl e \<Rightarrow> fst (forecast_loop_st mdl FEATS ld steps (w, out) h) = Inl e
          | Inr (s', out') \<Rightarrow>
              (\<exists>w'. fst (forecast_loop_st mdl FEATS ld steps (w, out) h) = Inr (w', out')))"
  using assms
proof (induction steps arbitrary: w out s h)
  case Nil
  then show ?case by simp
next
  case (Cons step steps)
  obtain r1 h1 where st: "forecast_step_st mdl FEATS ld (w, out) step h = (r1, h1)"
    by (cases "forecast_step_st mdl FEATS ld (w, out) step h")
  note sim = step_sim [OF Cons.prems, of mdl FEATS ld out step]
  from sim st have p1: "take (length h) h1 = h" by simp
  show ?case
  proof (cases "forecast_step mdl FEATS ld (s, out) step")
    case (Inl e)
    with sim st have "r1 = Inl e" by simp
    with st p1 Inl show ?thesis by simp
  next
    case (Inr so)
    obtain s1 out1 where so: "so = (s1, out1)" by (cases so)
    with sim st Inr obtain w1 where
      w1: "r1 = Inr (w1, out1)" "w1 < length h1" "h1 ! w1 = Frame s1 []"
      by auto
    note ih = Cons.IH [OF w1(2,3), of out1]
    from ih have "take (length h1) (snd (forecast_loop_st mdl FEATS ld steps (w1, out1) h1)) = h1"
      by simp
    with p1 have p2: "take (length h) (snd (forecast_loop_st mdl FEATS ld steps (w1, out1) h1)) = h"
      by (rule prefix_trans)
    have e: "forecast_loop_st mdl FEATS ld (step # steps) (w, out) h =
        forecast_loop_st mdl FEATS ld steps (w1, out1) h1"
      using st w1 by simp
    have f: "forecast_loop mdl FEATS ld (step # steps) (s, out) =
        forecast_loop mdl FEATS ld steps (s1, out1)"
      using Inr so by simp
    from ih p2 show ?thesis unfolding e f by blast
  qed
qed

lemma forecast_sim:
  assumes "hi < length h" "h ! hi = Frame hist []"
  shows "fst (forecast_st mdl FEATS dv hi h) = forecast mdl FEATS dv hist
       \<and> take (length h) (snd (forecast_st mdl FEATS dv hi h)) = h"
proof (cases "hist = []")
  case True
  with assms show ?thesis by (simp add: forecast_st_def forecast_def)
next
  case False
  let ?ld = "Max (set (map fst hist))"
  let ?h1 = "h @ [Frame hist []]"
  have w: "length h < length ?h1" "?h1 ! length h = Frame hist []" by simp_all
  note sim = loop_sim [OF w, of mdl FEATS ?ld "[1..<8]" "[]"]
  have p: "take (length h) ?h1 = h" by simp
  from sim have "take (length ?h1) (snd (forecast_loop_st mdl FEATS ?ld [1..<8] (length h, []) ?h1)) = ?h1"
    by simp
  with p have p2: "take (length h) (snd (forecast_loop_st mdl FEATS ?ld [1..<8] (length h, []) ?h1)) = h"
    by (rule prefix_trans)
  obtain r h' where l: "forecast_loop_st mdl FEATS ?ld [1..<8] (length h, []) ?h1 = (r, h')"
    by (cases "forecast_loop_st mdl FEATS ?ld [1..<8] (length h, []) ?h1")
  show ?thesis
  proof (cases "forecast_loop mdl FEATS ?ld [1..<8] (hist, [])")
    case (Inl e)
    with sim l have "r = Inl e" by simp
    with l p2 Inl False assms show ?thesis
      by (simp add: forecast_st_def forecast_def alloc_def Let_def)
  next
    case (Inr so)
    obtain s1 out1 where so: "so = (s1, out1)" by (cases so)
    with sim l Inr obtain w1 where "r = Inr (w1, out1)" by auto
    with l p2 Inr so False assms show ?thesis
      by (simp add: forecast_st_def forecast_def alloc_def Let_def)
  qed
qed

lemma hist_sim:
  assumes "a < length h"
  shows "\<exists>h'. hist_st a dv h = (h', length h + 3)
           \<and> take (length h) h' = h \<and> length h + 3 < length h'
           \<and> h' ! (length h + 3) = Frame (hist_of (sheet_rows (h ! a)) dv) []"
proof -
  have n2: "(h @ [x, y, z]) ! Suc (Suc (length h)) = z" for x y z
    by (simp add: nth_append)
  have n3: "(h @ [x, y, z, u]) ! (length h + 3) = u" for x y z u
    by (simp add: nth_append)
  show ?thesis
    using assms
    by (simp add: codes_def hist_st_def alloc_def Let_def hist_of_def nth_append n2 n3)
qed


lemma abs_globals_prefix:
  assumes "cached_ok g h" "take (length h) h' = h"
  shows "abs_globals g h' = abs_globals g h"
proof (cases "DATA_df g")
  case None
  then show ?thesis by (simp add: abs_globals_def)
next
  case (Some a)
  with assms(1) have "a < length h" by (simp add: cached_ok_def)
  with assms(2) have "h' ! a = h ! a" by (simp add: prefix_nth)
  with Some show ?thesis by (simp add: abs_globals_def)
qed

lemma gdc_sim:
  assumes "cached_ok g h" "get_data_cached_st g now loaded h = (r, g', h')"
  shows "take (length h) h' = h \<and> cached_ok g' h'
       \<and> snd (get_data_cached (abs_globals g h) now loaded) = abs_globals g' h'
       \<and> MODELS g' = MODELS g \<and> FEATURES g' = FEATURES g
       \<and> (case r of
            Inl e \<Rightarrow> fst (get_data_cached (abs_globals g h) now loaded) = Inl e
          | Inr a \<Rightarrow> a < length h'
              \<and> fst (get_data_cached (abs_globals g h) now loaded) = Inr (sheet_rows (h' ! a)))"
  using assms
  by (auto simp: get_data_cached_st_def get_data_cached_def abs_globals_def cached_ok_def
        alloc_def nth_append split: option.splits sum.splits if_splits)

lemma predict_sim:
  assumes "cached_ok g h"
  shows "take (length h) (snd (snd (predict_st g now loaded d h))) = h
       \<and> fst (predict_st g now loaded d h) = fst (predict (abs_globals g h) now loaded d)
       \<and> abs_globals (fst (snd (predict_st g now loaded d h))) (snd (snd (predict_st g now loaded d h)))
           = snd (predict (abs_globals g h) now loaded d)"
proof -
  let ?dv = "strip d"
  have M: "MODELS (abs_globals g h) = MODELS g" by (simp add: abs_globals_def)
  show ?thesis
  proof (cases "?dv \<in> set DIVS")
    case False
    then show ?thesis by (simp add: predict_st_def predict_def)
  next
    case dv: True
    show ?thesis
    proof (cases "map_of (MODELS g) ?dv")
      case None
      with dv M show ?thesis by (simp add: predict_st_def predict_def)
    next
      case (Some mdl)
      obtain r g' h1 where c: "get_data_cached_st g now loaded h = (r, g', h1)"
        by (cases "get_data_cached_st g now loaded h") auto
      note s = gdc_sim [OF assms c]
      obtain rp gp where cp: "get_data_cached (abs_globals g h) now loaded = (rp, gp)"
        by (cases "get_data_cached (abs_globals g h) now loaded")
      from s cp have gp: "gp = abs_globals g' h1" by simp
      show ?thesis
      proof (cases r)
        case (Inl e)
        with s cp have "rp = Inl e" by simp
        with Inl c cp gp s dv Some M show ?thesis
          by (simp add: predict_st_def predict_def)
      next
        case (Inr a)
        with s cp have a: "a < length h1" "rp = Inr (sheet_rows (h1 ! a))" by simp_all
        obtain h2 where hs: "hist_st a ?dv h1 = (h2, length h1 + 3)"
          "take (length h1) h2 = h1" "length h1 + 3 < length h2"
          "h2 ! (length h1 + 3) = Frame (hist_of (sheet_rows (h1 ! a)) ?dv) []"
          using hist_sim [OF a(1), of ?dv] by blast
        obtain res h3 where f: "forecast_st mdl (FEATURES g') ?dv (length h1 + 3) h2 = (res, h3)"
          by (cases "forecast_st mdl (FEATURES g') ?dv (length h1 + 3) h2")
        from forecast_sim [OF hs(3,4), of mdl "FEATURES g'" ?dv] f
        have fs: "res = forecast mdl (FEATURES g') ?dv (hist_of (sheet_rows (h1 ! a)) ?dv)"
          "take (length h2) h3 = h2" by simp_all
        have p13: "take (length h1) h3 = h1" using hs(2) fs(2) by (rule prefix_trans)
        from s have p01: "take (length h) h1 = h" by simp
        have p03: "take (length h) h3 = h" using p01 p13 by (rule prefix_trans)
        from s have ok: "cached_ok g' h1" by simp
        have ag: "abs_globals g' h3 = abs_globals g' h1"
          using ok p13 by (rule abs_globals_prefix)
        have F: "FEATURES gp = FEATURES g'" by (simp add: gp abs_globals_def)
        have st: "predict_st g now loaded d h = (res, g', h3)"
          using dv Some c Inr hs(1) f by (simp add: predict_st_def)
        have pu: "predict (abs_globals g h) now loaded d = (res, gp)"
          using dv Some M cp a(2) F fs(1) by (simp add: predict_def Let_def)
        show ?thesis unfolding st pu using p03 ag gp by simp
      qed
    qed
  qed
qed

section \<open>A request with a valid division\<close>

lemma forecast_step_short:
  assumes "work \<noteq> []" "length work \<le> 14"
  shows "forecast_step mdl (Some feature_cols) last_date (work, out) step =
           Inr (work @ [(last_date + int step, mean (tail 7 (map snd work)))],
                out @ [\<lparr>date = last_date + int step,
                        predicted_aqi = mean (tail 7 (map snd work))\<rparr>])"
proof -
  obtain x where "getitem (iloc_last (build_feats work)) feature_cols = Inr x" "isna_any x"
    using short_history_isna [OF assms] by blast
  then show ?thesis by (rule forecast_step_fallback)
qed

lemma predict_accepted:
  assumes "dv \<in> set DIVS"
  shows "predict g now loaded dv =
           (case map_of (MODELS g) dv of
              None \<Rightarrow> (Inl (HTTPException 500), g)
            | Some mdl \<Rightarrow>
                (case get_data_cached g now loaded of
                   (Inl e, g') \<Rightarrow> (Inl e, g')
                 | (Inr df_all, g') \<Rightarrow>
                     (forecast mdl (FEATURES g') dv (hist_of df_all dv), g')))"
  using assms by (simp add: predict_def strip_DIVS)

lemma mean_tail7:
  "mean (tail 7 vals) = sum_list (drop (length vals - 7) vals) / real (min 7 (length vals))"
proof -
  have "length (drop (length vals - 7) vals) = min 7 (length vals)" by auto
  then show ?thesis by (simp add: mean_def tail_def)
qed

section \<open>The schema over the life of the process\<close>

lemma snd_get_data_cached:
  "MODELS (snd (get_data_cached g now loaded)) = MODELS g
   \<and> FEATURES (snd (get_data_cached g now loaded)) = FEATURES g"
  by (simp add: get_data_cached_def split: option.splits sum.splits)

lemma snd_predict:
  "snd (predict g now loaded d) =
     (if strip d \<in> set DIVS \<and> map_of (MODELS g) (strip d) \<noteq> None
      then snd (get_data_cached g now loaded) else g)"
  by (auto simp: predict_def Let_def split: option.splits prod.splits sum.splits)

lemma predict_keeps:
  "MODELS (snd (predict g now loaded d)) = MODELS g
   \<and> FEATURES (snd (predict g now loaded d)) = FEATURES g"
  unfolding snd_predict using snd_get_data_cached [of g now loaded] by simp

lemma serve_keeps:
  "MODELS (serve g reqs) = MODELS g \<and> FEATURES (serve g reqs) = FEATURES g"
proof (induction reqs arbitrary: g)
  case Nil
  then show ?case by simp
next
  case (Cons r reqs)
  obtain now loaded d where r: "r = (now, loaded, d)" by (cases r)
  show ?case
    unfolding r serve.simps using Cons.IH [of "snd (predict g now loaded d)"]
      predict_keeps [of g now loaded d] by simp
qed

lemma startup_schema:
  assumes "startup files cs = Inr g" "dv \<in> set DIVS" "files dv = Some own"
  shows "\<exists>lst. files (last (filter (\<lambda>d. files d \<noteq> None) DIVS)) = Some lst
           \<and> FEATURES g = Some (features lst)
           \<and> map_of (MODELS g) dv = Some (model own)"
proof -
  obtain ms fs where l: "load_models files = (ms, fs)"
    by (cases "load_models files")
  with assms(1) have g: "MODELS g = ms" "FEATURES g = fs"
    by (auto simp: startup_def split: if_splits)
  from l have f: "fold (load_one files) DIVS ([], None) = (ms, fs)"
    by (simp add: load_models_def)
  note r = fold_load_one [OF f]
  let ?es = "filter (\<lambda>d. files d \<noteq> None) DIVS"
  have "dv \<in> set ?es" using assms(2,3) by simp
  then have ne: "?es \<noteq> []" by (metis empty_iff list.set(1))
  then have "last ?es \<in> set ?es" by (rule last_in_set)
  then have "files (last ?es) \<noteq> None" by simp
  then obtain lst where lst: "files (last ?es) = Some lst" by auto
  from ne obtain e es where "?es = e # es" by (cases ?es) auto
  with r lst have fs: "fs = Some (features lst)" by simp
  from r assms(2,3) have m: "map_of ms dv = Some (model own)" by simp
  from lst g fs m show ?thesis by blast
qed

lemma predict_with:
  assumes "dv \<in> set DIVS" "map_of (MODELS g) dv = Some mdl"
    "fst (get_data_cached g now loaded) = Inr df_all"
  shows "fst (predict g now loaded dv) = forecast mdl (FEATURES g) dv (hist_of df_all dv)"
proof -
  obtain g' where c: "get_data_cached g now loaded = (Inr df_all, g')"
    using assms(3) by (cases "get_data_cached g now loaded") simp
  have "FEATURES g' = FEATURES g"
    using FEATURES_get_data_cached [of g now loaded] c by simp
  then show ?thesis
    using assms(1,2) c by (simp add: predict_accepted)
qed

lemma forecast_step_lag:
  assumes "work \<noteq> []" "sorted_wrt (<) (map fst work)" "1 \<le> L" "L \<le> 14"
  shows "forecast_step mdl (Some [lag_name L]) ld (work, out) step =
     (let pred = (if L < length work
                  then mdl [(lag_name L, [Num (snd (work ! (length work - 1 - L)))])]
                  else mean (tail 7 (map snd work)))
      in Inr (work @ [(ld + int step, pred)],
              out @ [\<lparr>date = ld + int step, predicted_aqi = pred\<rparr>]))"
proof -
  have s: "sort_values_Date work = work" by (rule sort_values_Date_id [OF assms(2)])
  have ne: "map Num (map snd work) \<noteq> []" using assms(1) by simp
  have "map_of (iloc_last (build_feats work)) (lag_name L) =
      Some (tail 1 (shift L (map Num (map snd work))))"
    by (simp only: map_of_iloc_last map_of_lag [OF assms(3,4)] s option.map)
  also have "tail 1 (shift L (map Num (map snd work))) =
      [if L < length work then Num (snd (work ! (length work - 1 - L))) else NaN]"
    using last_shift [OF ne, of L] by simp
  finally have m: "map_of (iloc_last (build_feats work)) (lag_name L) =
      Some [if L < length work then Num (snd (work ! (length work - 1 - L))) else NaN]" .
  show ?thesis
    by (simp add: forecast_step_def m isna_any_def Let_def)
qed

section \<open>Claims\<close>

text \<open>
  C3. For every non-empty input series (and a schema that names columns of the feature
  table), the forecast returns exactly 7 points, and their dates are the last date of
  the series plus 1, 2, ..., 7, in this order.
\<close>

theorem forecast_horizon:
  assumes "hist \<noteq> []" "set fs \<subseteq> set (''Date'' # ''AQI'' # feature_cols)"
  shows "\<exists>out. forecast mdl (Some fs) dv hist =
                 Inr \<lparr>division = dv, forecast_days = 7, predictions = out\<rparr>
           \<and> length out = 7
           \<and> map date out = map (\<lambda>k. Max (set (map fst hist)) + k) [1, 2, 3, 4, 5, 6, 7]"
proof -
  let ?ld = "Max (set (map fst hist))"
  obtain work' ps where
    l: "forecast_loop mdl (Some fs) ?ld [1..<8] (hist, []) = Inr (work', [] @ ps)"
    and d: "map date ps = map (\<lambda>s. ?ld + int s) [1..<8]"
    using forecast_loop_ok [OF assms(2)] by blast
  from d have "length (map date ps) = 7" by simp
  then have "length ps = 7" by simp
  moreover have "map (\<lambda>s. ?ld + int s) [1..<8] = map (\<lambda>k. ?ld + k) [1, 2, 3, 4, 5, 6, 7]"
    unfolding upt_1_8 by simp
  with d have "map date ps = map (\<lambda>k. ?ld + k) [1, 2, 3, 4, 5, 6, 7]"
    by (simp only:)
  ultimately show ?thesis
    using l assms(1) by (simp add: forecast_def Let_def)
qed

theorem forecast_horizon_witness:
  "[(19000, 42)] \<noteq> ([] :: series)
   \<and> set feature_cols \<subseteq> set (''Date'' # ''AQI'' # feature_cols)
   \<and> (\<exists>out. forecast (\<lambda>x. 0) (Some feature_cols) (codes ''Dhaka'') [(19000, 42)] =
               Inr \<lparr>division = (codes ''Dhaka''), forecast_days = 7, predictions = out\<rparr>
        \<and> length out = 7
        \<and> map date out = [19001, 19002, 19003, 19004, 19005, 19006, 19007])"
proof -
  have h: "[(19000, 42)] \<noteq> ([] :: series)" by simp
  have f: "set feature_cols \<subseteq> set (''Date'' # ''AQI'' # feature_cols)" by auto
  show ?thesis
    using h f forecast_horizon [OF h f, of "\<lambda>x. 0" "(codes ''Dhaka'')"] by simp
qed

text \<open>
  C5. For every series with strictly increasing dates, the \<open>roll7\<close> field of the last
  row of the feature table is the mean of the 7 values before the last row, and the
  missing-value marker when fewer than 7 rows come before it; \<open>roll14\<close> likewise with
  14.
\<close>

theorem roll_last:
  assumes "work \<noteq> []" "sorted_wrt (<) (map fst work)"
  shows "map_of (iloc_last (build_feats work)) ''roll7'' =
           Some [if 7 \<le> length (butlast work)
                 then Num (mean (tail 7 (butlast (map snd work)))) else NaN]
       \<and> map_of (iloc_last (build_feats work)) ''roll14'' =
           Some [if 14 \<le> length (butlast work)
                 then Num (mean (tail 14 (butlast (map snd work)))) else NaN]"
proof -
  have s: "sort_values_Date work = work" by (rule sort_values_Date_id [OF assms(2)])
  have ne: "map snd work \<noteq> []" using assms(1) by simp
  have a: "7 \<le> length (butlast work) \<longleftrightarrow> 7 < length (map snd work)"
    and b: "14 \<le> length (butlast work) \<longleftrightarrow> 14 < length (map snd work)"
    using assms(1) by (simp_all; arith)+
  show ?thesis
    by (simp only: map_of_iloc_last map_of_roll7 map_of_roll14 s a b option.map
          last_rolling_mean [OF ne] zero_less_numeral simp_thms)
qed

theorem roll_last_witness:
  "[(0, 1), (1, 2), (2, 3), (3, 4), (4, 5), (5, 6), (6, 7), (7, 8)] \<noteq> ([] :: series)
   \<and> sorted_wrt (<) (map fst ([(0, 1), (1, 2), (2, 3), (3, 4), (4, 5), (5, 6), (6, 7), (7, 8)] :: series))
   \<and> map_of (iloc_last (build_feats [(0, 1), (1, 2), (2, 3), (3, 4), (4, 5), (5, 6), (6, 7), (7, 8)]))
        ''roll7'' = Some [Num 4]
   \<and> map_of (iloc_last (build_feats [(0, 1), (1, 2), (2, 3), (3, 4), (4, 5), (5, 6), (6, 7), (7, 8)]))
        ''roll14'' = Some [NaN]"
proof -
  let ?w = "[(0, 1), (1, 2), (2, 3), (3, 4), (4, 5), (5, 6), (6, 7), (7, 8)] :: series"
  have h: "?w \<noteq> []" by simp
  have s: "sorted_wrt (<) (map fst ?w)" by simp
  show ?thesis
    using h s roll_last [OF h s] by (simp add: mean_def tail_def)
qed

text \<open>
  C6. The claim as amended: for every series with strictly increasing dates and every
  \<open>L\<close> from 1 to 14, the \<open>lag_L\<close> field of the last row is the value of the row \<open>L\<close>
  rows before the last one, and the missing-value marker when fewer than \<open>L\<close> rows come
  before the last one. It is the value observed \<open>L\<close> days before the reference date
  when the series has a row for every day.
\<close>

theorem lag_last:
  assumes "work \<noteq> []" "sorted_wrt (<) (map fst work)" "1 \<le> L" "L \<le> 14"
  shows "map_of (iloc_last (build_feats work)) (lag_name L) =
           Some [if L \<le> length (butlast work)
                 then Num (snd (work ! (length work - 1 - L))) else NaN]
       \<and> (consecutive_days work \<and> L \<le> length (butlast work) \<longrightarrow>
            observed_days_before work L = Some (snd (work ! (length work - 1 - L))))"
proof -
  let ?n = "length work"
  have s: "sort_values_Date work = work" by (rule sort_values_Date_id [OF assms(2)])
  have ne: "map Num (map snd work) \<noteq> []" using assms(1) by simp
  have c: "L \<le> length (butlast work) \<longleftrightarrow> L < ?n"
    using assms(1) by (cases work) auto
  have "map_of (iloc_last (build_feats work)) (lag_name L) =
      Some (tail 1 (shift L (map Num (map snd work))))"
    by (simp only: map_of_iloc_last map_of_lag [OF assms(3,4)] s option.map)
  also have "tail 1 (shift L (map Num (map snd work))) =
      [if L < ?n then Num (snd (work ! (?n - 1 - L))) else NaN]"
    using last_shift [OF ne, of L] by simp
  finally have 1: "map_of (iloc_last (build_feats work)) (lag_name L) =
      Some [if L \<le> length (butlast work) then Num (snd (work ! (?n - 1 - L))) else NaN]"
    by (simp only: c)
  have 2: "observed_days_before work L = Some (snd (work ! (?n - 1 - L)))"
    if cd: "consecutive_days work" and l: "L < ?n"
  proof -
    let ?d0 = "fst (hd work)"
    have nth: "fst (work ! j) = ?d0 + int j" if "j < ?n" for j
    proof -
      have "map fst work ! j = map (\<lambda>i. ?d0 + int i) [0..<?n] ! j"
        using cd by (simp add: consecutive_days_def)
      with that show ?thesis by simp
    qed
    have "last work = work ! (?n - 1)" using assms(1) by (simp add: last_conv_nth)
    then have "fst (last work) = ?d0 + int (?n - 1)" using nth [of "?n - 1"] l by simp
    then have "fst (last work) - int L = ?d0 + int (?n - 1 - L)" using l by simp
    also have "\<dots> = fst (work ! (?n - 1 - L))" using nth [of "?n - 1 - L"] l by simp
    finally have k: "fst (last work) - int L = fst (work ! (?n - 1 - L))" .
    have d: "distinct (map fst work)" using assms(2) by (simp add: strict_sorted_iff)
    have "work ! (?n - 1 - L) \<in> set work" using l by simp
    then have "(fst (work ! (?n - 1 - L)), snd (work ! (?n - 1 - L))) \<in> set work" by simp
    from map_of_is_SomeI [OF d this] show ?thesis
      by (simp only: observed_days_before_def k)
  qed
  from 1 2 c show ?thesis by blast
qed

theorem lag_last_witness:
  "[(0, 10), (1, 20), (2, 30)] \<noteq> ([] :: series)
   \<and> sorted_wrt (<) (map fst ([(0, 10), (1, 20), (2, 30)] :: series))
   \<and> (1::nat) \<le> 2 \<and> (2::nat) \<le> 14
   \<and> consecutive_days [(0, 10), (1, 20), (2, 30)]
   \<and> 2 \<le> length (butlast ([(0, 10), (1, 20), (2, 30)] :: series))
   \<and> map_of (iloc_last (build_feats [(0, 10), (1, 20), (2, 30)])) (lag_name 2) = Some [Num 10]
   \<and> observed_days_before [(0, 10), (1, 20), (2, 30)] 2 = Some 10"
proof -
  let ?w = "[(0, 10), (1, 20), (2, 30)] :: series"
  have h: "?w \<noteq> []" by simp
  have s: "sorted_wrt (<) (map fst ?w)" by simp
  have c: "consecutive_days ?w" by (simp add: consecutive_days_def upt_rec)
  have l: "2 \<le> length (butlast ?w)" by simp
  show ?thesis
    using h s c l lag_last [OF h s, of 2] by simp
qed

text \<open>
  C6 as stated fails on a series with a gap: on the dates 0, 1, 3 the field \<open>lag_2\<close> of
  the last row is the value of day 0, and the value observed 2 days before day 3 is
  the value of day 1.
\<close>

theorem lag_days_counterexample:
  "sorted_wrt (<) (map fst ([(0, 10), (1, 20), (3, 30)] :: series))
   \<and> map_of (iloc_last (build_feats [(0, 10), (1, 20), (3, 30)])) (lag_name 2) = Some [Num 10]
   \<and> observed_days_before [(0, 10), (1, 20), (3, 30)] 2 = Some 20
   \<and> map_of (iloc_last (build_feats [(0, 10), (1, 20), (3, 30)])) (lag_name 2)
       \<noteq> map_option (\<lambda>v. [Num v]) (observed_days_before [(0, 10), (1, 20), (3, 30)] 2)"
  by (simp add: build_feats_cols sort_values_Date_def iloc_last_def tail_def shift_def
        lag_name_lits observed_days_before_def)

text \<open>
  C7. With no observation for the division the forecast fails and returns no point:
  the forecast itself fails with status 404, and \<open>predict\<close> fails with 400, 500 or 404,
  with 404 when the division is valid and has a model.
\<close>

theorem empty_series_rejected:
  "forecast mdl FEATS dv [] = Inl (HTTPException 404)
   \<and> (fst (get_data_cached g now loaded) = Inr df_all \<and> hist_of df_all (strip d) = [] \<longrightarrow>
        fst (predict g now loaded d)
          \<in> {Inl (HTTPException 400), Inl (HTTPException 500), Inl (HTTPException 404)})
   \<and> (fst (get_data_cached g now loaded) = Inr df_all \<and> hist_of df_all (strip d) = []
        \<and> strip d \<in> set DIVS \<and> map_of (MODELS g) (strip d) = Some mdl \<longrightarrow>
        fst (predict g now loaded d) = Inl (HTTPException 404))"
  by (auto simp: forecast_def predict_def Let_def split: option.splits prod.splits sum.splits)


theorem empty_series_rejected_witness:
  "fst (get_data_cached g0 0 (Inr [(19000, (codes ''Sylhet''), 80)])) = Inr [(19000, (codes ''Sylhet''), 80)]
   \<and> hist_of [(19000, (codes ''Sylhet''), 80)] (strip (codes ''Dhaka'')) = []
   \<and> strip (codes ''Dhaka'') \<in> set DIVS
   \<and> map_of (MODELS g0) (strip (codes ''Dhaka'')) = Some (\<lambda>x. 0)
   \<and> fst (predict g0 0 (Inr [(19000, (codes ''Sylhet''), 80)]) (codes ''Dhaka'')) = Inl (HTTPException 404)"
proof -
  have s: "strip (codes ''Dhaka'') = (codes ''Dhaka'')" by (simp add: codes_def strip_def is_space_def)
  have c: "fst (get_data_cached g0 0 (Inr [(19000, (codes ''Sylhet''), 80)])) = Inr [(19000, (codes ''Sylhet''), 80)]"
    by (simp add: codes_def get_data_cached_def g0_def)
  have h: "hist_of [(19000, (codes ''Sylhet''), 80)] (strip (codes ''Dhaka'')) = []"
    unfolding s by (simp add: codes_def hist_of_def sort_values_Date_def)
  have d: "strip (codes ''Dhaka'') \<in> set DIVS" unfolding s by (simp add: DIVS_def)
  have m: "map_of (MODELS g0) (strip (codes ''Dhaka'')) = Some (\<lambda>x. 0)"
    unfolding s by (simp add: g0_def)
  show ?thesis
    using c h d m
      empty_series_rejected [where g = g0 and now = 0 and loaded = "Inr [(19000, (codes ''Sylhet''), 80)]"
        and df_all = "[(19000, (codes ''Sylhet''), 80)]" and d = "(codes ''Dhaka'')" and mdl = "\<lambda>x. 0"]
    by simp
qed

text \<open>
  C1. On the ramp 1..20 with the regressor \<open>stub\<close> the first prediction is 35, the sum
  of \<open>lag_1 = 19\<close> and \<open>roll7 = 16\<close> of the row of the last observation; the claimed
  value is 20 plus the mean of seven values ending at 20 (37), or ending at 19 (36).
\<close>

theorem full_feature_ramp:
  "(\<exists>ps. forecast stub (Some feature_cols) dv (ramp d0) =
          Inr \<lparr>division = dv, forecast_days = 7,
               predictions = \<lparr>date = d0 + 20, predicted_aqi = 35\<rparr> # ps\<rparr>)
   \<and> 20 + mean (map snd (drop 13 (ramp d0))) = 37
   \<and> 20 + mean (map snd (take 7 (drop 12 (ramp d0)))) = 36"
proof -
  have ne: "ramp d0 \<noteq> []" by (simp add: ramp_lits)
  have f: "set feature_cols \<subseteq> set (''Date'' # ''AQI'' # feature_cols)" by auto
  have "forecast_step stub (Some feature_cols) (Max (set (map fst (ramp d0)))) (ramp d0, []) 1 =
      Inr (ramp d0 @ [(d0 + 20, 35)], [\<lparr>date = d0 + 20, predicted_aqi = 35\<rparr>])"
    unfolding Max_ramp by (rule step1_ramp)
  from forecast_first [OF ne f this]
  have "\<exists>ps. forecast stub (Some feature_cols) dv (ramp d0) =
          Inr \<lparr>division = dv, forecast_days = 7,
               predictions = \<lparr>date = d0 + 20, predicted_aqi = 35\<rparr> # ps\<rparr>" .
  moreover have "20 + mean (map snd (drop 13 (ramp d0))) = 37"
    by (simp add: ramp_lits mean_def)
  moreover have "20 + mean (map snd (take 7 (drop 12 (ramp d0)))) = 36"
    by (simp add: ramp_lits mean_def)
  ultimately show ?thesis by blast
qed

text \<open>
  C2. On the same input the first step predicts 35, and the \<open>lag_1\<close> field of the row
  used at the second step is 20, the last observation of the input series.
\<close>

theorem compounding_ramp:
  "forecast_step stub (Some feature_cols) (d0 + 19) (ramp d0, []) 1 =
     Inr (ramp d0 @ [(d0 + 20, 35)], [\<lparr>date = d0 + 20, predicted_aqi = 35\<rparr>])
   \<and> (\<exists>x. getitem (iloc_last (build_feats (ramp d0 @ [(d0 + 20, 35)]))) feature_cols = Inr x
          \<and> map_of x ''lag_1'' = Some [Num 20])
   \<and> snd (last (ramp d0)) = 20"
proof -
  let ?w = "ramp d0 @ [(d0 + 20, 35)]"
  have "set feature_cols \<subseteq> fst ` set (iloc_last (build_feats ?w))"
    using cols_build_feats [of ?w] cols_iloc_last [of "build_feats ?w"]
    by (metis set_map set_subset_Cons subset_trans)
  then obtain x where x: "getitem (iloc_last (build_feats ?w)) feature_cols = Inr x"
    using getitem_ok by blast
  have "''lag_1'' \<in> set feature_cols" by (simp add: feature_cols_lits)
  from getitem_map_of [OF x this] have "map_of x ''lag_1'' = Some [Num 20]"
    by (simp add: lag1_step2_ramp)
  moreover have "snd (last (ramp d0)) = 20" by (simp add: ramp_lits)
  ultimately show ?thesis using x step1_ramp by blast
qed

text \<open>
  C8. A call of \<open>predict\<close> changes no frame that existed before it: the store after the
  call begins with the store before it, so the cached dataframe is the same object
  with the same content; the cache after the call is the one \<open>get_data_cached\<close> leaves
  (the same frame, or a newly loaded one when the old one is stale). Likewise the
  rollout from the extracted series \<open>hist\<close> changes no frame that existed before it,
  \<open>hist\<close> among them; every write goes to a frame allocated during the call. The result
  is the result of the value model.
\<close>

theorem store_unchanged:
  "(cached_ok g h \<longrightarrow>
      take (length h) (snd (snd (predict_st g now loaded d h))) = h
      \<and> fst (predict_st g now loaded d h) = fst (predict (abs_globals g h) now loaded d)
      \<and> abs_globals (fst (snd (predict_st g now loaded d h)))
          (snd (snd (predict_st g now loaded d h)))
         = snd (predict (abs_globals g h) now loaded d))
   \<and> (hi < length h \<and> h ! hi = Frame hist [] \<longrightarrow>
        take (length h) (snd (forecast_st mdl FEATS dv hi h)) = h
        \<and> fst (forecast_st mdl FEATS dv hi h) = forecast mdl FEATS dv hist)"
  using predict_sim [of g h now loaded d] forecast_sim [of hi h hist mdl FEATS dv]
  by blast


theorem store_unchanged_witness:
  "cached_ok gS hS
   \<and> take (length hS) (snd (snd (predict_st gS 0 (Inr []) (codes ''Dhaka'') hS))) = hS
   \<and> snd (snd (predict_st gS 0 (Inr []) (codes ''Dhaka'') hS)) ! 0 = Sheet [(19000, (codes ''Dhaka''), 80)]
   \<and> fst (predict_st gS 0 (Inr []) (codes ''Dhaka'') hS)
       = fst (predict (abs_globals gS hS) 0 (Inr []) (codes ''Dhaka''))
   \<and> DATA_df (abs_globals gS hS) = Some [(19000, (codes ''Dhaka''), 80)]
   \<and> 1 < length hS \<and> hS ! 1 = Frame [(19000, 80)] []
   \<and> take (length hS) (snd (forecast_st (\<lambda>x. 0) (Some feature_cols) (codes ''Dhaka'') 1 hS)) = hS
   \<and> fst (forecast_st (\<lambda>x. 0) (Some feature_cols) (codes ''Dhaka'') 1 hS)
       = forecast (\<lambda>x. 0) (Some feature_cols) (codes ''Dhaka'') [(19000, 80)]"
proof -
  have c: "cached_ok gS hS" by (simp add: codes_def cached_ok_def gS_def hS_def)
  have l: "1 < length hS" "hS ! 1 = Frame [(19000, 80)] []" by (simp_all add: codes_def hS_def)
  have a: "DATA_df (abs_globals gS hS) = Some [(19000, (codes ''Dhaka''), 80)]"
    by (simp add: codes_def abs_globals_def gS_def hS_def)
  note t = store_unchanged [of gS hS 0 "Inr []" "(codes ''Dhaka'')" 1 "[(19000, 80)]" "\<lambda>x. 0"
      "Some feature_cols" "(codes ''Dhaka'')"]
  from t c have p: "take (length hS) (snd (snd (predict_st gS 0 (Inr []) (codes ''Dhaka'') hS))) = hS"
    by blast
  have "0 < length hS" by (simp add: codes_def hS_def)
  with p have "snd (snd (predict_st gS 0 (Inr []) (codes ''Dhaka'') hS)) ! 0 = hS ! 0"
    by (simp add: prefix_nth)
  then have z: "snd (snd (predict_st gS 0 (Inr []) (codes ''Dhaka'') hS)) ! 0 = Sheet [(19000, (codes ''Dhaka''), 80)]"
    by (simp add: codes_def hS_def)
  from t c l a z show ?thesis by blast
qed

text \<open>
  C10. The division name is stripped before it is validated. A name and its stripped
  form are treated alike. A division name with whitespace around it (any of the
  whitespace of \<^verbatim>\<open>str.strip\<close>) is accepted: it passes the validation and the
  request goes on under the name itself, to the check for a model, the data and the
  forecast. A name whose stripped form is not one of the 8 divisions is rejected with
  status 400.
\<close>

theorem division_stripped:
  "predict g now loaded (strip d) = predict g now loaded d
   \<and> (list_all is_space a \<and> list_all is_space b \<and> dv \<in> set DIVS \<longrightarrow>
        strip (a @ dv @ b) = dv
        \<and> predict g now loaded (a @ dv @ b) = predict g now loaded dv
        \<and> predict g now loaded (a @ dv @ b) =
            (case map_of (MODELS g) dv of
               None \<Rightarrow> (Inl (HTTPException 500), g)
             | Some mdl \<Rightarrow>
                 (case get_data_cached g now loaded of
                    (Inl e, g') \<Rightarrow> (Inl e, g')
                  | (Inr df_all, g') \<Rightarrow>
                      (forecast mdl (FEATURES g') dv (hist_of df_all dv), g'))))
   \<and> (strip d \<notin> set DIVS \<longrightarrow> predict g now loaded d = (Inl (HTTPException 400), g))"
proof (intro conjI impI)
  show "predict g now loaded (strip d) = predict g now loaded d"
    by (rule predict_strip) (rule strip_idem)
next
  assume a: "list_all is_space a \<and> list_all is_space b \<and> dv \<in> set DIVS"
  then have t: "dv \<noteq> [] \<and> \<not> is_space (hd dv) \<and> \<not> is_space (last dv)"
    using DIVS_trim by blast
  with a show s: "strip (a @ dv @ b) = dv"
    by (intro strip_trimmed) simp_all
  from a have "strip dv = dv" by (simp add: strip_DIVS)
  with s have "strip (a @ dv @ b) = strip dv" by simp
  then show e: "predict g now loaded (a @ dv @ b) = predict g now loaded dv"
    by (rule predict_strip)
  from a have "dv \<in> set DIVS" by simp
  from predict_accepted [OF this, of g now loaded]
  show "predict g now loaded (a @ dv @ b) =
            (case map_of (MODELS g) dv of
               None \<Rightarrow> (Inl (HTTPException 500), g)
             | Some mdl \<Rightarrow>
                 (case get_data_cached g now loaded of
                    (Inl e, g') \<Rightarrow> (Inl e, g')
                  | (Inr df_all, g') \<Rightarrow>
                      (forecast mdl (FEATURES g') dv (hist_of df_all dv), g')))"
    unfolding e .
next
  assume "strip d \<notin> set DIVS"
  then show "predict g now loaded d = (Inl (HTTPException 400), g)"
    by (simp add: predict_def)
qed

theorem division_stripped_witness:
  "list_all is_space [160, 32] \<and> list_all is_space [12288, 10] \<and> codes ''Dhaka'' \<in> set DIVS
   \<and> strip ([160, 32] @ codes ''Dhaka'' @ [12288, 10]) = codes ''Dhaka''
   \<and> fst (predict g0 0 (Inr sheetA) ([160, 32] @ codes ''Dhaka'' @ [12288, 10])) =
       Inr \<lparr>division = codes ''Dhaka'', forecast_days = 7,
            predictions =
              [\<lparr>date = 19002, predicted_aqi = 80\<rparr>, \<lparr>date = 19003, predicted_aqi = 80\<rparr>,
               \<lparr>date = 19004, predicted_aqi = 80\<rparr>, \<lparr>date = 19005, predicted_aqi = 80\<rparr>,
               \<lparr>date = 19006, predicted_aqi = 80\<rparr>, \<lparr>date = 19007, predicted_aqi = 80\<rparr>,
               \<lparr>date = 19008, predicted_aqi = 570 / 7\<rparr>]\<rparr>
   \<and> strip (codes ''Dha ka'') \<notin> set DIVS
   \<and> predict g0 0 (Inr sheetA) (codes ''Dha ka'') = (Inl (HTTPException 400), g0)"
proof -
  have s: "list_all is_space [160, 32]" "list_all is_space [12288, 10]"
    by (simp_all add: is_space_def)
  have d: "codes ''Dhaka'' \<in> set DIVS" by (simp add: DIVS_def)
  have n: "strip (codes ''Dha ka'') \<notin> set DIVS"
    by (simp add: codes_def strip_def is_space_def DIVS_def)
  have m: "map_of (MODELS g0) (codes ''Dhaka'') = Some (\<lambda>x. 0)" by (simp add: g0_def)
  have c: "get_data_cached g0 0 (Inr sheetA) = (Inr sheetA, g0\<lparr>DATA_df := Some sheetA, DATA_ts := 0\<rparr>)"
    by (simp add: get_data_cached_def g0_def)
  have F: "FEATURES (g0\<lparr>DATA_df := Some sheetA, DATA_ts := 0\<rparr>) = Some feature_cols"
    by (simp add: g0_def)
  have h: "hist_of sheetA (codes ''Dhaka'') = [(19000, 70), (19001, 90)]"
    by (simp add: codes_def sheetA_def hist_of_def sort_values_Date_def)
  have f: "forecast (\<lambda>x. 0) (Some feature_cols) (codes ''Dhaka'') [(19000, 70), (19001, 90)] =
      Inr \<lparr>division = codes ''Dhaka'', forecast_days = 7,
            predictions =
              [\<lparr>date = 19002, predicted_aqi = 80\<rparr>, \<lparr>date = 19003, predicted_aqi = 80\<rparr>,
               \<lparr>date = 19004, predicted_aqi = 80\<rparr>, \<lparr>date = 19005, predicted_aqi = 80\<rparr>,
               \<lparr>date = 19006, predicted_aqi = 80\<rparr>, \<lparr>date = 19007, predicted_aqi = 80\<rparr>,
               \<lparr>date = 19008, predicted_aqi = 570 / 7\<rparr>]\<rparr>"
    by (simp add: forecast_def upt_Suc0_8 forecast_step_short mean_def tail_def)
  note t = division_stripped [of g0 0 "Inr sheetA" "codes ''Dha ka''" "[160, 32]" "[12288, 10]"
      "codes ''Dhaka''"]
  from t s d have k: "predict g0 0 (Inr sheetA) ([160, 32] @ codes ''Dhaka'' @ [12288, 10]) =
      (case map_of (MODELS g0) (codes ''Dhaka'') of
         None \<Rightarrow> (Inl (HTTPException 500), g0)
       | Some mdl \<Rightarrow>
           (case get_data_cached g0 0 (Inr sheetA) of
              (Inl e, g') \<Rightarrow> (Inl e, g')
            | (Inr df_all, g') \<Rightarrow>
                (forecast mdl (FEATURES g') (codes ''Dhaka'') (hist_of df_all (codes ''Dhaka'')), g')))"
    by blast
  have p: "fst (predict g0 0 (Inr sheetA) ([160, 32] @ codes ''Dhaka'' @ [12288, 10])) =
      forecast (\<lambda>x. 0) (Some feature_cols) (codes ''Dhaka'') [(19000, 70), (19001, 90)]"
    unfolding k by (simp add: m c F h)
  from t s d have q: "strip ([160, 32] @ codes ''Dhaka'' @ [12288, 10]) = codes ''Dhaka''"
    by blast
  from t n have r: "predict g0 0 (Inr sheetA) (codes ''Dha ka'') = (Inl (HTTPException 400), g0)"
    by blast
  show ?thesis
    using s d n q r p [unfolded f] by blast
qed

text \<open>
  C4. At a step of the rollout whose feature row holds the missing-value marker in a
  field of the schema, the prediction is the mean of the last 7 values of the working
  series: the sum of the values from the seventh-last on, divided by 7, or the sum of
  all values divided by their number when there are fewer than 7. With the schema of
  the training script and an input series of at most 14 observations, this is the
  first prediction; for 5 observations it is the mean of the 5 values.
\<close>

theorem fallback_mean:
  "(getitem (iloc_last (build_feats work)) fs = Inr x \<and> isna_any x \<longrightarrow>
      forecast_step mdl (Some fs) last_date (work, out) step =
        Inr (work @ [(last_date + int step,
                      sum_list (drop (length work - 7) (map snd work))
                        / real (min 7 (length work)))],
             out @ [\<lparr>date = last_date + int step,
                     predicted_aqi = sum_list (drop (length work - 7) (map snd work))
                        / real (min 7 (length work))\<rparr>]))
   \<and> (hist \<noteq> [] \<and> length hist \<le> 14 \<longrightarrow>
        (\<exists>r. forecast mdl (Some feature_cols) dv hist = Inr r
           \<and> predicted_aqi (hd (predictions r)) =
               sum_list (drop (length hist - 7) (map snd hist)) / real (min 7 (length hist))))
   \<and> (length hist = 5 \<longrightarrow>
        (\<exists>r. forecast mdl (Some feature_cols) dv hist = Inr r
           \<and> predicted_aqi (hd (predictions r)) = sum_list (map snd hist) / 5))"
proof -
  have 1: "forecast_step mdl (Some fs) last_date (work, out) step =
        Inr (work @ [(last_date + int step,
                      sum_list (drop (length work - 7) (map snd work))
                        / real (min 7 (length work)))],
             out @ [\<lparr>date = last_date + int step,
                     predicted_aqi = sum_list (drop (length work - 7) (map snd work))
                        / real (min 7 (length work))\<rparr>])"
    if "getitem (iloc_last (build_feats work)) fs = Inr x \<and> isna_any x"
    using forecast_step_fallback [of work fs x mdl last_date out step] that
      mean_tail7 [of "map snd work"] by simp
  have 2: "\<exists>r. forecast mdl (Some feature_cols) dv hist = Inr r
           \<and> predicted_aqi (hd (predictions r)) =
               sum_list (drop (length hist - 7) (map snd hist)) / real (min 7 (length hist))"
    if h: "hist \<noteq> [] \<and> length hist \<le> 14"
  proof -
    let ?ld = "Max (set (map fst hist))"
    let ?m = "mean (tail 7 (map snd hist))"
    from h have ne: "hist \<noteq> []" and le: "length hist \<le> 14" by simp_all
    have "forecast_step mdl (Some feature_cols) ?ld (hist, []) 1 =
        Inr (hist @ [(?ld + int 1, ?m)], [] @ [\<lparr>date = ?ld + int 1, predicted_aqi = ?m\<rparr>])"
      by (rule forecast_step_short [OF ne le])
    then have "forecast_step mdl (Some feature_cols) ?ld (hist, []) 1 =
        Inr (hist @ [(?ld + int 1, ?m)], [\<lparr>date = ?ld + int 1, predicted_aqi = ?m\<rparr>])"
      by simp
    from forecast_first [OF ne _ this]
    obtain ps where "forecast mdl (Some feature_cols) dv hist =
        Inr \<lparr>division = dv, forecast_days = 7,
             predictions = \<lparr>date = ?ld + int 1, predicted_aqi = ?m\<rparr> # ps\<rparr>"
      by auto
    then show ?thesis
      using mean_tail7 [of "map snd hist"] by simp
  qed
  have 3: "\<exists>r. forecast mdl (Some feature_cols) dv hist = Inr r
           \<and> predicted_aqi (hd (predictions r)) = sum_list (map snd hist) / 5"
    if l: "length hist = 5"
  proof -
    from l have "hist \<noteq> [] \<and> length hist \<le> 14" by auto
    from 2 [OF this] l show ?thesis by simp
  qed
  from 1 2 3 show ?thesis by blast
qed

theorem fallback_mean_witness:
  "getitem (iloc_last (build_feats
       [(0, 1), (1, 2), (2, 3), (3, 4), (4, 5), (5, 6), (6, 7), (7, 100)])) [''lag_8'']
     = Inr [(''lag_8'', [NaN])]
   \<and> isna_any [(''lag_8'', [NaN])]
   \<and> forecast_step (\<lambda>x. 0) (Some [''lag_8'']) 7
        ([(0, 1), (1, 2), (2, 3), (3, 4), (4, 5), (5, 6), (6, 7), (7, 100)], []) 1 =
        Inr ([(0, 1), (1, 2), (2, 3), (3, 4), (4, 5), (5, 6), (6, 7), (7, 100), (8, 127 / 7)],
             [\<lparr>date = 8, predicted_aqi = 127 / 7\<rparr>])
   \<and> [(0, 1), (1, 2), (2, 3), (3, 4), (4, 5), (5, 6), (6, 7), (7, 100)] \<noteq> ([] :: series)
   \<and> length ([(0, 1), (1, 2), (2, 3), (3, 4), (4, 5), (5, 6), (6, 7), (7, 100)] :: series) \<le> 14
   \<and> (\<exists>r. forecast (\<lambda>x. 0) (Some feature_cols) (codes ''Dhaka'')
              [(0, 1), (1, 2), (2, 3), (3, 4), (4, 5), (5, 6), (6, 7), (7, 100)] = Inr r
          \<and> predicted_aqi (hd (predictions r)) = 127 / 7)
   \<and> map predicted_aqi (take 2 (predictions (projr
        (forecast (\<lambda>x. 0) (Some feature_cols) (codes ''Dhaka'')
           [(0, 1), (1, 2), (2, 3), (3, 4), (4, 5), (5, 6), (6, 7), (7, 100)]))))
       = [127 / 7, 1002 / 49]"
proof -
  let ?w = "[(0, 1), (1, 2), (2, 3), (3, 4), (4, 5), (5, 6), (6, 7), (7, 100)] :: series"
  have g: "getitem (iloc_last (build_feats ?w)) [''lag_8''] = Inr [(''lag_8'', [NaN])]"
    by (simp add: build_feats_cols sort_values_Date_def iloc_last_def tail_def shift_def)
  have i: "isna_any [(''lag_8'', [NaN])]"
    by (simp add: isna_any_def)
  have n: "?w \<noteq> []" "length ?w \<le> 14" by simp_all
  have e: "map predicted_aqi (take 2 (predictions (projr
        (forecast (\<lambda>x. 0) (Some feature_cols) (codes ''Dhaka'') ?w)))) = [127 / 7, 1002 / 49]"
    by (simp add: forecast_def upt_Suc0_8 forecast_step_short mean_def tail_def)
  note t = fallback_mean [of "?w" "[''lag_8'']" "[(''lag_8'', [NaN])]" "\<lambda>x. 0" 7 "[]" 1 "?w"
      "codes ''Dhaka''"]
  from t g i have 1: "forecast_step (\<lambda>x. 0) (Some [''lag_8'']) 7 (?w, []) 1 =
        Inr (?w @ [(7 + int 1, sum_list (drop (length ?w - 7) (map snd ?w)) / real (min 7 (length ?w)))],
             [] @ [\<lparr>date = 7 + int 1,
                    predicted_aqi = sum_list (drop (length ?w - 7) (map snd ?w))
                       / real (min 7 (length ?w))\<rparr>])"
    by blast
  from t n have 2: "\<exists>r. forecast (\<lambda>x. 0) (Some feature_cols) (codes ''Dhaka'') ?w = Inr r
           \<and> predicted_aqi (hd (predictions r)) =
               sum_list (drop (length ?w - 7) (map snd ?w)) / real (min 7 (length ?w))"
    by blast
  from 1 have s1: "forecast_step (\<lambda>x. 0) (Some [''lag_8'']) 7 (?w, []) 1 =
        Inr ([(0, 1), (1, 2), (2, 3), (3, 4), (4, 5), (5, 6), (6, 7), (7, 100), (8, 127 / 7)],
             [\<lparr>date = 8, predicted_aqi = 127 / 7\<rparr>])"
    by simp
  from 2 have s2: "\<exists>r. forecast (\<lambda>x. 0) (Some feature_cols) (codes ''Dhaka'') ?w = Inr r
          \<and> predicted_aqi (hd (predictions r)) = 127 / 7"
    by simp
  from g i n e s1 s2 show ?thesis by blast
qed

text \<open>
  C9. The schema is one value of the process. After the start it is the schema stored
  with the last model file found, in the order of \<open>DIVS\<close>, and no request changes it.
  So after any sequence of requests, the prediction of every division that has a
  model selects the columns of that schema, with the division's own model.
\<close>

theorem schema_is_global:
  assumes "startup files cs = Inr g" "dv \<in> set DIVS" "files dv = Some own"
    "fst (get_data_cached (serve g reqs) now loaded) = Inr df_all"
  shows "\<exists>lst. files (last (filter (\<lambda>d. files d \<noteq> None) DIVS)) = Some lst
           \<and> FEATURES (serve g reqs) = Some (features lst)
           \<and> fst (predict (serve g reqs) now loaded dv) =
               forecast (model own) (Some (features lst)) dv (hist_of df_all dv)"
proof -
  from startup_schema [OF assms(1,2,3)] obtain lst where
    lst: "files (last (filter (\<lambda>d. files d \<noteq> None) DIVS)) = Some lst"
      "FEATURES g = Some (features lst)" "map_of (MODELS g) dv = Some (model own)"
    by blast
  have k: "MODELS (serve g reqs) = MODELS g" "FEATURES (serve g reqs) = FEATURES g"
    using serve_keeps [of g reqs] by simp_all
  have "fst (predict (serve g reqs) now loaded dv) =
      forecast (model own) (FEATURES (serve g reqs)) dv (hist_of df_all dv)"
    using assms(2) lst(3) assms(4) by (intro predict_with) (simp_all add: k)
  with lst k show ?thesis by simp
qed


theorem schema_is_global_witness:
  "startup filesA 1800 = Inr gA
   \<and> codes ''Dhaka'' \<in> set DIVS
   \<and> filesA (codes ''Dhaka'') = Some \<lparr>model = \<lambda>x. 1, features = [''lag_1'']\<rparr>
   \<and> serve gA [(0, Inr sheetB, codes ''Rangpur'')] = gA\<lparr>DATA_df := Some sheetB, DATA_ts := 0\<rparr>
   \<and> fst (get_data_cached (serve gA [(0, Inr sheetB, codes ''Rangpur'')]) 60 (Inl RuntimeError))
       = Inr sheetB
   \<and> FEATURES (serve gA [(0, Inr sheetB, codes ''Rangpur'')]) = Some [''lag_2'']
   \<and> fst (predict (serve gA [(0, Inr sheetB, codes ''Rangpur'')]) 60 (Inl RuntimeError)
            (codes ''Dhaka''))
       = Inr \<lparr>division = codes ''Dhaka'', forecast_days = 7,
              predictions =
                [\<lparr>date = 19001, predicted_aqi = 80\<rparr>, \<lparr>date = 19002, predicted_aqi = 80\<rparr>,
                 \<lparr>date = 19003, predicted_aqi = 1\<rparr>, \<lparr>date = 19004, predicted_aqi = 1\<rparr>,
                 \<lparr>date = 19005, predicted_aqi = 1\<rparr>, \<lparr>date = 19006, predicted_aqi = 1\<rparr>,
                 \<lparr>date = 19007, predicted_aqi = 1\<rparr>]\<rparr>
   \<and> forecast (\<lambda>x. 1) (Some [''lag_1'']) (codes ''Dhaka'') (hist_of sheetB (codes ''Dhaka''))
       = Inr \<lparr>division = codes ''Dhaka'', forecast_days = 7,
              predictions =
                [\<lparr>date = 19001, predicted_aqi = 80\<rparr>, \<lparr>date = 19002, predicted_aqi = 1\<rparr>,
                 \<lparr>date = 19003, predicted_aqi = 1\<rparr>, \<lparr>date = 19004, predicted_aqi = 1\<rparr>,
                 \<lparr>date = 19005, predicted_aqi = 1\<rparr>, \<lparr>date = 19006, predicted_aqi = 1\<rparr>,
                 \<lparr>date = 19007, predicted_aqi = 1\<rparr>]\<rparr>"
proof -
  let ?reqs = "[(0, Inr sheetB, codes ''Rangpur'')] :: (real \<times> (error + sheet) \<times> pystr) list"
  note r1 = forecast_step_lag [where L = 1, simplified lag_name_lits, simplified]
  note r2 = forecast_step_lag [where L = 2, simplified lag_name_lits, simplified]
  have s: "startup filesA 1800 = Inr gA"
    by (simp add: codes_def startup_def load_models_def DIVS_def load_one_def filesA_def
          setitem_def gA_def)
  have d: "codes ''Dhaka'' \<in> set DIVS" by (simp add: DIVS_def)
  have o: "filesA (codes ''Dhaka'') = Some \<lparr>model = \<lambda>x. 1, features = [''lag_1'']\<rparr>"
    by (simp add: codes_def filesA_def)
  have sR: "strip (codes ''Rangpur'') = codes ''Rangpur''"
    by (rule strip_DIVS) (simp add: DIVS_def)
  have v: "serve gA ?reqs = gA\<lparr>DATA_df := Some sheetB, DATA_ts := 0\<rparr>"
    by (simp add: snd_predict sR) (simp add: codes_def DIVS_def gA_def get_data_cached_def)
  have c: "fst (get_data_cached (serve gA ?reqs) 60 (Inl RuntimeError)) = Inr sheetB"
    unfolding v by (simp add: get_data_cached_def gA_def)
  have l: "last (filter (\<lambda>d. filesA d \<noteq> None) DIVS) = codes ''Rangpur''"
    by (simp add: codes_def DIVS_def filesA_def)
  have r: "filesA (codes ''Rangpur'') = Some \<lparr>model = \<lambda>x. 2, features = [''lag_2'']\<rparr>"
    by (simp add: codes_def filesA_def)
  have h: "hist_of sheetB (codes ''Dhaka'') = [(19000, 80)]"
    by (simp add: sheetB_def hist_of_def sort_values_Date_def)
  have f2: "forecast (\<lambda>x. 1) (Some [''lag_2'']) (codes ''Dhaka'') [(19000, 80)]
       = Inr \<lparr>division = codes ''Dhaka'', forecast_days = 7,
              predictions =
                [\<lparr>date = 19001, predicted_aqi = 80\<rparr>, \<lparr>date = 19002, predicted_aqi = 80\<rparr>,
                 \<lparr>date = 19003, predicted_aqi = 1\<rparr>, \<lparr>date = 19004, predicted_aqi = 1\<rparr>,
                 \<lparr>date = 19005, predicted_aqi = 1\<rparr>, \<lparr>date = 19006, predicted_aqi = 1\<rparr>,
                 \<lparr>date = 19007, predicted_aqi = 1\<rparr>]\<rparr>"
    by (simp add: forecast_def upt_Suc0_8 r2 mean_def tail_def Let_def)
  have f1: "forecast (\<lambda>x. 1) (Some [''lag_1'']) (codes ''Dhaka'') [(19000, 80)]
       = Inr \<lparr>division = codes ''Dhaka'', forecast_days = 7,
              predictions =
                [\<lparr>date = 19001, predicted_aqi = 80\<rparr>, \<lparr>date = 19002, predicted_aqi = 1\<rparr>,
                 \<lparr>date = 19003, predicted_aqi = 1\<rparr>, \<lparr>date = 19004, predicted_aqi = 1\<rparr>,
                 \<lparr>date = 19005, predicted_aqi = 1\<rparr>, \<lparr>date = 19006, predicted_aqi = 1\<rparr>,
                 \<lparr>date = 19007, predicted_aqi = 1\<rparr>]\<rparr>"
    by (simp add: forecast_def upt_Suc0_8 r1 mean_def tail_def Let_def)
  from schema_is_global [OF s d o c]
  have t: "FEATURES (serve gA ?reqs) = Some [''lag_2'']
      \<and> fst (predict (serve gA ?reqs) 60 (Inl RuntimeError) (codes ''Dhaka'')) =
          forecast (\<lambda>x. 1) (Some [''lag_2'']) (codes ''Dhaka'') (hist_of sheetB (codes ''Dhaka''))"
    unfolding l r by auto
  from s d o v c t show ?thesis unfolding h f1 f2 by blast
qed

end
